theory Spec2Isabelle
  imports Main
begin

section \<open>Python values the clients and the service handle\<close>

text \<open>
  The exceptions of the source that no handler of the modelled functions catches.
  \<open>httpx.HTTPError\<close> is not among them: every client method catches it, so it
  only appears as an outcome of a request (see \<open>post_outcome\<close>).
\<close>

datatype py_exception = KeyError | TypeError | AttributeError | JSONDecodeError

text \<open>
  What \<open>response.json()\<close> returns: the values of the \<open>Dict[str, Any]\<close> payloads.
  Numbers are integers (the payloads read here carry counts, years and identifiers);
  \<open>JNull\<close> is Python's \<open>None\<close>. A \<open>JObj\<close> lists each key once, as a dict does.
\<close>

datatype json =
    JNull
  | JBool bool
  | JInt int
  | JStr string
  | JList "json list"
  | JObj "(string \<times> json) list"

text \<open>Truth value of a Python object, as \<open>if x\<close> and a generator's \<open>if\<close> test it.\<close>

fun truthy :: "json \<Rightarrow> bool" where
  "truthy JNull = False"
| "truthy (JBool b) = b"
| "truthy (JInt n) = (n \<noteq> 0)"
| "truthy (JStr s) = (s \<noteq> [])"
| "truthy (JList xs) = (xs \<noteq> [])"
| "truthy (JObj kvs) = (kvs \<noteq> [])"

text \<open>\<open>d.get(key, default)\<close>: only a dict has the method.\<close>

fun dict_get :: "json \<Rightarrow> string \<Rightarrow> json \<Rightarrow> py_exception + json" where
  "dict_get (JObj kvs) key dflt = Inr (case map_of kvs key of None \<Rightarrow> dflt | Some v \<Rightarrow> v)"
| "dict_get JNull key dflt = Inl AttributeError"
| "dict_get (JBool b) key dflt = Inl AttributeError"
| "dict_get (JInt n) key dflt = Inl AttributeError"
| "dict_get (JStr s) key dflt = Inl AttributeError"
| "dict_get (JList xs) key dflt = Inl AttributeError"

text \<open>
  \<open>d[key]\<close> with a string key: a dict without the key raises \<open>KeyError\<close>; a list
  and a string take integer indices only, the other values are not subscriptable.
\<close>

fun getitem :: "json \<Rightarrow> string \<Rightarrow> py_exception + json" where
  "getitem (JObj kvs) key = (case map_of kvs key of None \<Rightarrow> Inl KeyError | Some v \<Rightarrow> Inr v)"
| "getitem JNull key = Inl TypeError"
| "getitem (JBool b) key = Inl TypeError"
| "getitem (JInt n) key = Inl TypeError"
| "getitem (JStr s) key = Inl TypeError"
| "getitem (JList xs) key = Inl TypeError"

subsection \<open>\<open>str\<close> of an integer\<close>

definition digit_char :: "nat \<Rightarrow> char" where
  "digit_char d = ''0123456789'' ! d"

fun str_nat :: "nat \<Rightarrow> string" where
  "str_nat n = (if n < 10 then [digit_char n] else str_nat (n div 10) @ [digit_char (n mod 10)])"

declare str_nat.simps [simp del]

definition str_int :: "int \<Rightarrow> string" where
  "str_int i = (if i < 0 then CHR ''-'' # str_nat (nat (- i)) else str_nat (nat i))"

text \<open>\<open>str\<close> (and \<open>f"{...}"\<close>) of an \<open>Optional[int]\<close>: \<open>None\<close> prints as the word None.\<close>

definition str_optional_int :: "int option \<Rightarrow> string" where
  "str_optional_int y = (case y of None \<Rightarrow> ''None'' | Some i \<Rightarrow> str_int i)"

section \<open>The Jellyfin client (src/clients/jellyfin.py)\<close>

record JellyfinClient =
  access_token :: json
  user_id :: json

text \<open>
  The outcome of \<open>self.client.post(...)\<close> followed by \<open>response.raise_for_status()\<close>
  and \<open>response.json()\<close>: the request raises an \<open>httpx.HTTPError\<close> (no connection,
  timeout, ...), or a response arrives. Of the response the code uses whether
  \<open>raise_for_status\<close> raises (an \<open>httpx.HTTPStatusError\<close>, which is an
  \<open>httpx.HTTPError\<close>) and its body: \<open>None\<close> when the body is not JSON, so that
  \<open>response.json()\<close> raises a \<open>JSONDecodeError\<close>.
\<close>

record response =
  raises_for_status :: bool
  json_body :: "json option"

datatype post_outcome = HTTPError | Responded response

datatype log_level = INFO | ERROR

text \<open>
  \<open>authenticate\<close>: the result or the exception that leaves the method, the client
  (its attributes are assigned one by one, so an exception after the first assignment
  leaves the token set), and the levels of the lines it logged.
\<close>

definition authenticate ::
  "JellyfinClient \<Rightarrow> post_outcome \<Rightarrow> (py_exception + bool) \<times> JellyfinClient \<times> log_level list" where
  "authenticate self outcome =
     (case outcome of
        HTTPError \<Rightarrow> (Inr False, self, [INFO, ERROR])
      | Responded resp \<Rightarrow>
          if raises_for_status resp then (Inr False, self, [INFO, ERROR])
          else
            (case json_body resp of
               None \<Rightarrow> (Inl JSONDecodeError, self, [INFO])
             | Some data \<Rightarrow>
                 (case getitem data ''AccessToken'' of
                    Inl e \<Rightarrow> (Inl e, self, [INFO])
                  | Inr token \<Rightarrow>
                      (let self1 = self\<lparr>access_token := token\<rparr> in
                       case getitem data ''User'' of
                         Inl e \<Rightarrow> (Inl e, self1, [INFO])
                       | Inr user \<Rightarrow>
                           (case getitem user ''Id'' of
                              Inl e \<Rightarrow> (Inl e, self1, [INFO])
                            | Inr uid \<Rightarrow>
                                (Inr True, self1\<lparr>user_id := uid\<rparr>, [INFO, INFO]))))))"

text \<open>
  \<open>is_series_fully_watched\<close>, from the list \<open>get_series_episodes\<close> returned.
  The generator \<open>sum(1 for ep in episodes if ep.get("UserData", {}).get("Played", False))\<close>
  visits the episodes in order and raises at the first one whose \<open>get\<close> fails.
\<close>

definition played :: "json \<Rightarrow> py_exception + bool" where
  "played ep =
     (case dict_get ep ''UserData'' (JObj []) of
        Inl e \<Rightarrow> Inl e
      | Inr user_data \<Rightarrow>
          (case dict_get user_data ''Played'' (JBool False) of
             Inl e \<Rightarrow> Inl e
           | Inr p \<Rightarrow> Inr (truthy p)))"

fun count_played :: "json list \<Rightarrow> py_exception + int" where
  "count_played [] = Inr 0"
| "count_played (ep # eps) =
     (case played ep of
        Inl e \<Rightarrow> Inl e
      | Inr p \<Rightarrow>
          (case count_played eps of
             Inl e \<Rightarrow> Inl e
           | Inr n \<Rightarrow> Inr ((if p then 1 else 0) + n)))"

definition is_series_fully_watched :: "json list \<Rightarrow> py_exception + (bool \<times> int \<times> int)" where
  "is_series_fully_watched episodes =
     (if episodes = [] then Inr (False, 0, 0)
      else
        (let total_episodes = int (length episodes) in
         case count_played episodes of
           Inl e \<Rightarrow> Inl e
         | Inr watched_episodes \<Rightarrow>
             Inr (watched_episodes = total_episodes \<and> total_episodes > 0,
                  watched_episodes, total_episodes)))"

section \<open>The data model (src/models.py)\<close>

text \<open>
  \<open>MovieInfo\<close> and \<open>SeriesInfo\<close> objects are shared: the service files the very object
  that sits in a user's list into a bucket and assigns its \<open>watched_by_users\<close> there.
  So the objects live in a store, an address is the index of an object in it, and the
  lists of \<open>UserWatchData\<close> and \<open>Report\<close> hold addresses.
\<close>

type_synonym addr = nat

record MovieInfo =
  title :: string
  year :: "int option"
  tmdb_id :: "string option"
  imdb_id :: "string option"
  path :: "string option"
  in_radarr :: bool
  radarr_id :: "int option"
  jellyfin_id :: "string option"
  watched_by_users :: "string list"

record SeriesInfo =
  title :: string
  year :: "int option"
  tvdb_id :: "string option"
  imdb_id :: "string option"
  path :: "string option"
  in_sonarr :: bool
  sonarr_id :: "int option"
  sonarr_title_slug :: "string option"
  jellyfin_id :: "string option"
  total_episodes :: int
  watched_episodes :: int
  is_fully_watched :: bool
  watched_by_users :: "string list"

record store =
  movie_objs :: "MovieInfo list"
  series_objs :: "SeriesInfo list"

definition empty_store :: store where
  "empty_store = \<lparr>movie_objs = [], series_objs = []\<rparr>"

text \<open>
  \<open>UserWatchData\<close> and \<open>Report\<close> are used at two types of item: addresses
  (\<open>'m = 's = addr\<close>), the objects of the running service, and the items themselves
  (\<open>'m = MovieInfo\<close>, \<open>'s = SeriesInfo\<close>), the nested dict that \<open>model_dump()\<close>
  returns.
\<close>

record ('m, 's) UserWatchData =
  user_id :: string
  username :: string
  watched_movies :: "'m list"
  watched_series :: "'s list"

record ('m, 's) Report =
  users :: "('m, 's) UserWatchData list"
  movies_watched_by_all :: "'m list"
  movies_watched_by_some :: "'m list"
  series_fully_watched_by_all :: "'s list"
  series_fully_watched_by_some :: "'s list"
  series_partially_watched_by_all :: "'s list"
  series_partially_watched_by_some :: "'s list"
  jellyfin_url :: "string option"
  radarr_url :: "string option"
  sonarr_url :: "string option"

text \<open>\<open>Report()\<close>: every field at its default.\<close>

definition Report_default :: "(addr, addr) Report" where
  "Report_default =
     \<lparr>users = [], movies_watched_by_all = [], movies_watched_by_some = [],
      series_fully_watched_by_all = [], series_fully_watched_by_some = [],
      series_partially_watched_by_all = [], series_partially_watched_by_some = [],
      jellyfin_url = None, radarr_url = None, sonarr_url = None\<rparr>"

text \<open>Creating an object: it gets the next address of the store.\<close>

definition new_movie :: "MovieInfo \<Rightarrow> store \<Rightarrow> addr \<times> store" where
  "new_movie movie st = (length (movie_objs st), st\<lparr>movie_objs := movie_objs st @ [movie]\<rparr>)"

definition new_series :: "SeriesInfo \<Rightarrow> store \<Rightarrow> addr \<times> store" where
  "new_series series st = (length (series_objs st), st\<lparr>series_objs := series_objs st @ [series]\<rparr>)"

text \<open>\<open>obj.watched_by_users = watchers\<close> on the object at an address.\<close>

definition set_movie_watchers :: "addr \<Rightarrow> string list \<Rightarrow> store \<Rightarrow> store" where
  "set_movie_watchers a watchers st =
     st\<lparr>movie_objs := (movie_objs st)[a := (movie_objs st ! a)\<lparr>MovieInfo.watched_by_users := watchers\<rparr>]\<rparr>"

definition set_series_watchers :: "addr \<Rightarrow> string list \<Rightarrow> store \<Rightarrow> store" where
  "set_series_watchers a watchers st =
     st\<lparr>series_objs := (series_objs st)[a := (series_objs st ! a)\<lparr>SeriesInfo.watched_by_users := watchers\<rparr>]\<rparr>"

section \<open>The payloads the service reads\<close>

text \<open>
  The items of the Jellyfin, Radarr and Sonarr lists are dicts; the service reads the
  keys below. A field read with \<open>get\<close> is optional (\<open>None\<close>: the key is missing); the
  types are the ones the \<open>MovieInfo\<close> and \<open>SeriesInfo\<close> constructors accept. The
  catalog identifiers \<open>tmdbId\<close> and \<open>tvdbId\<close> are numbers. The key \<open>Id\<close> of an
  item is \<open>item_Id\<close> here (\<open>Id\<close> is a constant of HOL), the key \<open>id\<close> of a catalog
  entry \<open>radarr_item_id\<close> and \<open>sonarr_item_id\<close>, the keys \<open>Id\<close> and \<open>Name\<close> of a user
  \<open>user_Id\<close> and \<open>user_Name\<close>.
\<close>

record provider_ids =
  Tmdb :: "string option"
  Imdb :: "string option"
  Tvdb :: "string option"

record jellyfin_item =
  Name :: "string option"
  ProductionYear :: "int option"
  ProviderIds :: "provider_ids option"
  Path :: "string option"
  item_Id :: "string option"

record jellyfin_user =
  user_Id :: string
  user_Name :: string

record radarr_movie =
  tmdbId :: "int option"
  radarr_item_id :: "int option"

record sonarr_series =
  tvdbId :: "int option"
  sonarr_item_id :: "int option"
  titleSlug :: "string option"

text \<open>The empty dict \<open>{}\<close> that \<open>get("ProviderIds", {})\<close> falls back to.\<close>

definition no_provider_ids :: provider_ids where
  "no_provider_ids = \<lparr>Tmdb = None, Imdb = None, Tvdb = None\<rparr>"

text \<open>Truth value of an \<open>Optional[int]\<close> and of an \<open>Optional[str]\<close>.\<close>

definition truthy_int :: "int option \<Rightarrow> bool" where
  "truthy_int x = (case x of None \<Rightarrow> False | Some n \<Rightarrow> n \<noteq> 0)"

definition truthy_str :: "string option \<Rightarrow> bool" where
  "truthy_str x = (case x of None \<Rightarrow> False | Some s \<Rightarrow> s \<noteq> [])"

section \<open>The service (src/service.py)\<close>

subsection \<open>The lookup dictionaries\<close>

text \<open>
  \<open>{str(movie.get("tmdbId")): movie for movie in radarr_movies if movie.get("tmdbId")}\<close>:
  the comprehension stores the items in order, a later item replacing an earlier one
  with the same key.
\<close>

definition radarr_tmdb_lookup :: "radarr_movie list \<Rightarrow> (string \<rightharpoonup> radarr_movie)" where
  "radarr_tmdb_lookup radarr_movies =
     foldl (\<lambda>d movie. if truthy_int (tmdbId movie)
                       then d(str_optional_int (tmdbId movie) \<mapsto> movie) else d)
       Map.empty radarr_movies"

definition sonarr_tvdb_lookup :: "sonarr_series list \<Rightarrow> (string \<rightharpoonup> sonarr_series)" where
  "sonarr_tvdb_lookup sonarr_series_list =
     foldl (\<lambda>d series. if truthy_int (tvdbId series)
                        then d(str_optional_int (tvdbId series) \<mapsto> series) else d)
       Map.empty sonarr_series_list"

subsection \<open>\<open>_parse_movie\<close> and \<open>_parse_series\<close>\<close>

definition parse_movie :: "jellyfin_item \<Rightarrow> (string \<rightharpoonup> radarr_movie) \<Rightarrow> MovieInfo" where
  "parse_movie movie radarr_lookup =
     (let provider_ids = (case ProviderIds movie of None \<Rightarrow> no_provider_ids | Some p \<Rightarrow> p);
          tmdb_id = Tmdb provider_ids;
          imdb_id = Imdb provider_ids;
          radarr_movie = (if truthy_str tmdb_id then radarr_lookup (the tmdb_id) else None);
          in_radarr = (radarr_movie \<noteq> None);
          radarr_id = (case radarr_movie of None \<Rightarrow> None | Some rm \<Rightarrow> radarr_item_id rm)
      in \<lparr>MovieInfo.title = (case Name movie of None \<Rightarrow> ''Unknown'' | Some n \<Rightarrow> n),
          year = ProductionYear movie,
          tmdb_id = tmdb_id,
          imdb_id = imdb_id,
          path = Path movie,
          in_radarr = in_radarr,
          radarr_id = radarr_id,
          jellyfin_id = item_Id movie,
          watched_by_users = []\<rparr>)"

text \<open>
  \<open>_parse_series\<close> asks the client for the episodes of the series
  (\<open>episodes\<close> is what \<open>get_series_episodes(series_id, user_id)\<close> returned) and returns
  \<open>None\<close> for a series with no watched episode.
\<close>

definition parse_series ::
  "jellyfin_item \<Rightarrow> json list \<Rightarrow> (string \<rightharpoonup> sonarr_series) \<Rightarrow> py_exception + SeriesInfo option" where
  "parse_series series episodes sonarr_lookup =
     (let provider_ids = (case ProviderIds series of None \<Rightarrow> no_provider_ids | Some p \<Rightarrow> p);
          tvdb_id = Tvdb provider_ids;
          imdb_id = Imdb provider_ids;
          sonarr_series = (if truthy_str tvdb_id then sonarr_lookup (the tvdb_id) else None);
          in_sonarr = (sonarr_series \<noteq> None);
          sonarr_id = (case sonarr_series of None \<Rightarrow> None | Some ss \<Rightarrow> sonarr_item_id ss);
          sonarr_title_slug = (case sonarr_series of None \<Rightarrow> None | Some ss \<Rightarrow> titleSlug ss);
          series_id = item_Id series
      in case is_series_fully_watched episodes of
           Inl e \<Rightarrow> Inl e
         | Inr (fully_watched, watched_count, total_count) \<Rightarrow>
             if watched_count = 0 then Inr None
             else Inr (Some
               \<lparr>SeriesInfo.title = (case Name series of None \<Rightarrow> ''Unknown'' | Some n \<Rightarrow> n),
                year = ProductionYear series,
                tvdb_id = tvdb_id,
                imdb_id = imdb_id,
                path = Path series,
                in_sonarr = in_sonarr,
                sonarr_id = sonarr_id,
                sonarr_title_slug = sonarr_title_slug,
                jellyfin_id = series_id,
                total_episodes = total_count,
                watched_episodes = watched_count,
                is_fully_watched = fully_watched,
                watched_by_users = []\<rparr>))"

subsection \<open>\<open>_generate_report\<close>\<close>

record ArrCleanerService =
  jellyfin :: JellyfinClient
  jellyfin_url :: "string option"
  radarr_url :: "string option"
  sonarr_url :: "string option"

text \<open>The grouping key \<open>f"{movie.title}_{movie.year}"\<close>.\<close>

definition movie_key :: "MovieInfo \<Rightarrow> string" where
  "movie_key movie = MovieInfo.title movie @ ''_'' @ str_optional_int (MovieInfo.year movie)"

definition series_key :: "SeriesInfo \<Rightarrow> string" where
  "series_key series = SeriesInfo.title series @ ''_'' @ str_optional_int (SeriesInfo.year series)"

text \<open>
  \<open>watchers[key].append(username)\<close> on a \<open>defaultdict(list)\<close>. The dict keeps its keys
  in the order of their first insertion, which is the order \<open>items()\<close> yields them in,
  so it is an association list here.
\<close>

fun append_watcher ::
  "string \<Rightarrow> string \<Rightarrow> (string \<times> string list) list \<Rightarrow> (string \<times> string list) list" where
  "append_watcher key name [] = [(key, [name])]"
| "append_watcher key name ((k, names) # rest) =
     (if k = key then (k, names @ [name]) # rest
      else (k, names) # append_watcher key name rest)"

text \<open>The first pair of loops: the movies of every user, in order.\<close>

fun track_user_movies ::
  "store \<Rightarrow> string \<Rightarrow> addr list \<Rightarrow>
   (string \<times> string list) list \<times> (string \<rightharpoonup> addr) \<Rightarrow>
   (string \<times> string list) list \<times> (string \<rightharpoonup> addr)" where
  "track_user_movies st name [] acc = acc"
| "track_user_movies st name (movie # rest) (movie_watchers, movie_data) =
     (let key = movie_key (movie_objs st ! movie)
      in track_user_movies st name rest
           (append_watcher key name movie_watchers, movie_data(key \<mapsto> movie)))"

fun track_movies ::
  "store \<Rightarrow> (addr, addr) UserWatchData list \<Rightarrow>
   (string \<times> string list) list \<times> (string \<rightharpoonup> addr) \<Rightarrow>
   (string \<times> string list) list \<times> (string \<rightharpoonup> addr)" where
  "track_movies st [] acc = acc"
| "track_movies st (user_data # rest) acc =
     track_movies st rest
       (track_user_movies st (username user_data) (watched_movies user_data) acc)"

text \<open>The second pair of loops: the series, split by \<open>is_fully_watched\<close>.\<close>

fun track_user_series ::
  "store \<Rightarrow> string \<Rightarrow> addr list \<Rightarrow>
   (string \<times> string list) list \<times> (string \<times> string list) list \<times> (string \<rightharpoonup> addr) \<Rightarrow>
   (string \<times> string list) list \<times> (string \<times> string list) list \<times> (string \<rightharpoonup> addr)" where
  "track_user_series st name [] acc = acc"
| "track_user_series st name (series # rest)
     (series_watchers_full, series_watchers_partial, series_data) =
     (let key = series_key (series_objs st ! series)
      in if is_fully_watched (series_objs st ! series)
         then track_user_series st name rest
                (append_watcher key name series_watchers_full, series_watchers_partial,
                 series_data(key \<mapsto> series))
         else track_user_series st name rest
                (series_watchers_full, append_watcher key name series_watchers_partial,
                 series_data(key \<mapsto> series)))"

fun track_series ::
  "store \<Rightarrow> (addr, addr) UserWatchData list \<Rightarrow>
   (string \<times> string list) list \<times> (string \<times> string list) list \<times> (string \<rightharpoonup> addr) \<Rightarrow>
   (string \<times> string list) list \<times> (string \<times> string list) list \<times> (string \<rightharpoonup> addr)" where
  "track_series st [] acc = acc"
| "track_series st (user_data # rest) acc =
     track_series st rest
       (track_user_series st (username user_data) (watched_series user_data) acc)"

text \<open>
  The three categorising loops. \<open>movie_data[key]\<close> raises \<open>KeyError\<close> for a key the
  dict does not hold.
\<close>

fun categorize_movies ::
  "(string \<times> string list) list \<Rightarrow> (string \<rightharpoonup> addr) \<Rightarrow> nat \<Rightarrow>
   (addr, addr) Report \<times> store \<Rightarrow> py_exception + (addr, addr) Report \<times> store" where
  "categorize_movies [] movie_data total_users acc = Inr acc"
| "categorize_movies ((key, watchers) # rest) movie_data total_users (report, st) =
     (case movie_data key of
        None \<Rightarrow> Inl KeyError
      | Some movie \<Rightarrow>
          (let st1 = set_movie_watchers movie watchers st
           in if length watchers = total_users
              then categorize_movies rest movie_data total_users
                     (report\<lparr>movies_watched_by_all := movies_watched_by_all report @ [movie]\<rparr>, st1)
              else categorize_movies rest movie_data total_users
                     (report\<lparr>movies_watched_by_some := movies_watched_by_some report @ [movie]\<rparr>, st1)))"

fun categorize_series_full ::
  "(string \<times> string list) list \<Rightarrow> (string \<rightharpoonup> addr) \<Rightarrow> nat \<Rightarrow>
   (addr, addr) Report \<times> store \<Rightarrow> py_exception + (addr, addr) Report \<times> store" where
  "categorize_series_full [] series_data total_users acc = Inr acc"
| "categorize_series_full ((key, watchers) # rest) series_data total_users (report, st) =
     (case series_data key of
        None \<Rightarrow> Inl KeyError
      | Some series \<Rightarrow>
          (let st1 = set_series_watchers series watchers st
           in if length watchers = total_users
              then categorize_series_full rest series_data total_users
                     (report\<lparr>series_fully_watched_by_all :=
                        series_fully_watched_by_all report @ [series]\<rparr>, st1)
              else categorize_series_full rest series_data total_users
                     (report\<lparr>series_fully_watched_by_some :=
                        series_fully_watched_by_some report @ [series]\<rparr>, st1)))"

fun categorize_series_partial ::
  "(string \<times> string list) list \<Rightarrow> (string \<rightharpoonup> addr) \<Rightarrow> nat \<Rightarrow>
   (addr, addr) Report \<times> store \<Rightarrow> py_exception + (addr, addr) Report \<times> store" where
  "categorize_series_partial [] series_data total_users acc = Inr acc"
| "categorize_series_partial ((key, watchers) # rest) series_data total_users (report, st) =
     (case series_data key of
        None \<Rightarrow> Inl KeyError
      | Some series \<Rightarrow>
          (let st1 = set_series_watchers series watchers st
           in if length watchers = total_users
              then categorize_series_partial rest series_data total_users
                     (report\<lparr>series_partially_watched_by_all :=
                        series_partially_watched_by_all report @ [series]\<rparr>, st1)
              else categorize_series_partial rest series_data total_users
                     (report\<lparr>series_partially_watched_by_some :=
                        series_partially_watched_by_some report @ [series]\<rparr>, st1)))"

text \<open>
  \<open>_generate_report\<close>: the report and the store after it. \<open>Report(users=..., ...)\<close>
  leaves the six buckets at their default, the empty list.
\<close>

definition generate_report ::
  "ArrCleanerService \<Rightarrow> (addr, addr) UserWatchData list \<Rightarrow> store \<Rightarrow>
   py_exception + (addr, addr) Report \<times> store" where
  "generate_report self users_data st =
     (let report = Report_default
            \<lparr>users := users_data,
             Report.jellyfin_url := jellyfin_url self,
             Report.radarr_url := radarr_url self,
             Report.sonarr_url := sonarr_url self\<rparr>
      in if users_data = [] then Inr (report, st)
         else
           (let (movie_watchers, movie_data) = track_movies st users_data ([], Map.empty);
                (series_watchers_full, series_watchers_partial, series_data) =
                   track_series st users_data ([], [], Map.empty);
                total_users = length users_data
            in case categorize_movies movie_watchers movie_data total_users (report, st) of
                 Inl e \<Rightarrow> Inl e
               | Inr acc1 \<Rightarrow>
                   (case categorize_series_full series_watchers_full series_data total_users acc1 of
                      Inl e \<Rightarrow> Inl e
                    | Inr acc2 \<Rightarrow>
                        categorize_series_partial series_watchers_partial series_data
                          total_users acc2)))"

subsection \<open>\<open>collect_data\<close>\<close>

text \<open>
  What the three servers answer during one run: the outcome of the authentication
  request, and the lists the client methods return (each method catches its request's
  errors and returns the empty list then). A method's answer depends on its arguments
  only.
\<close>

record responses =
  auth_outcome :: post_outcome
  jellyfin_users :: "jellyfin_user list"
  watched_movies_of :: "string \<Rightarrow> jellyfin_item list"
  watched_series_of :: "string \<Rightarrow> jellyfin_item list"
  episodes_of :: "string option \<Rightarrow> string \<Rightarrow> json list"
  radarr_movies :: "radarr_movie list"
  sonarr_series_list :: "sonarr_series list"

fun collect_movies ::
  "jellyfin_item list \<Rightarrow> (string \<rightharpoonup> radarr_movie) \<Rightarrow> addr list \<times> store \<Rightarrow> addr list \<times> store" where
  "collect_movies [] radarr_lookup acc = acc"
| "collect_movies (movie # rest) radarr_lookup (watched, st) =
     (let (movie_info, st1) = new_movie (parse_movie movie radarr_lookup) st
      in collect_movies rest radarr_lookup (watched @ [movie_info], st1))"

fun collect_series ::
  "jellyfin_item list \<Rightarrow> (string option \<Rightarrow> json list) \<Rightarrow> (string \<rightharpoonup> sonarr_series) \<Rightarrow>
   addr list \<times> store \<Rightarrow> py_exception + addr list \<times> store" where
  "collect_series [] episodes sonarr_lookup acc = Inr acc"
| "collect_series (series # rest) episodes sonarr_lookup (watched, st) =
     (case parse_series series (episodes (item_Id series)) sonarr_lookup of
        Inl e \<Rightarrow> Inl e
      | Inr None \<Rightarrow> collect_series rest episodes sonarr_lookup (watched, st)
      | Inr (Some info) \<Rightarrow>
          (let (series_info, st1) = new_series info st
           in collect_series rest episodes sonarr_lookup (watched @ [series_info], st1)))"

fun collect_users ::
  "jellyfin_user list \<Rightarrow> responses \<Rightarrow> (string \<rightharpoonup> radarr_movie) \<Rightarrow> (string \<rightharpoonup> sonarr_series) \<Rightarrow>
   (addr, addr) UserWatchData list \<times> store \<Rightarrow>
   py_exception + (addr, addr) UserWatchData list \<times> store" where
  "collect_users [] served radarr_lookup sonarr_lookup acc = Inr acc"
| "collect_users (user # rest) served radarr_lookup sonarr_lookup (users_data, st) =
     (let uid = user_Id user;
          name = user_Name user;
          (movies, st1) = collect_movies (watched_movies_of served uid) radarr_lookup ([], st)
      in case collect_series (watched_series_of served uid) (\<lambda>series_id. episodes_of served series_id uid)
                sonarr_lookup ([], st1) of
           Inl e \<Rightarrow> Inl e
         | Inr (series, st2) \<Rightarrow>
             collect_users rest served radarr_lookup sonarr_lookup
               (users_data @
                  [\<lparr>UserWatchData.user_id = uid, username = name,
                    watched_movies = movies, watched_series = series\<rparr>], st2))"

definition collect_data ::
  "ArrCleanerService \<Rightarrow> responses \<Rightarrow> py_exception + (addr, addr) Report \<times> store" where
  "collect_data self served =
     (case fst (authenticate (jellyfin self) (auth_outcome served)) of
        Inl e \<Rightarrow> Inl e
      | Inr authenticated \<Rightarrow>
          if \<not> authenticated then Inr (Report_default, empty_store)
          else
            (let radarr_lookup = radarr_tmdb_lookup (radarr_movies served);
                 sonarr_lookup = sonarr_tvdb_lookup (sonarr_series_list served)
             in case collect_users (jellyfin_users served) served radarr_lookup sonarr_lookup
                       ([], empty_store) of
                  Inl e \<Rightarrow> Inl e
                | Inr (users_data, st) \<Rightarrow> generate_report self users_data st))"

section \<open>The web application (src/web/app.py) and \<open>main\<close>\<close>

text \<open>
  \<open>model_dump()\<close>: the report as nested dicts, every object replaced by its fields as
  they are at that moment.
\<close>

definition dump_user :: "store \<Rightarrow> (addr, addr) UserWatchData \<Rightarrow> (MovieInfo, SeriesInfo) UserWatchData" where
  "dump_user st u =
     \<lparr>UserWatchData.user_id = UserWatchData.user_id u, username = username u,
      watched_movies = map (\<lambda>a. movie_objs st ! a) (watched_movies u),
      watched_series = map (\<lambda>a. series_objs st ! a) (watched_series u)\<rparr>"

definition model_dump :: "store \<Rightarrow> (addr, addr) Report \<Rightarrow> (MovieInfo, SeriesInfo) Report" where
  "model_dump st report =
     \<lparr>users = map (dump_user st) (users report),
      movies_watched_by_all = map (\<lambda>a. movie_objs st ! a) (movies_watched_by_all report),
      movies_watched_by_some = map (\<lambda>a. movie_objs st ! a) (movies_watched_by_some report),
      series_fully_watched_by_all = map (\<lambda>a. series_objs st ! a) (series_fully_watched_by_all report),
      series_fully_watched_by_some = map (\<lambda>a. series_objs st ! a) (series_fully_watched_by_some report),
      series_partially_watched_by_all =
        map (\<lambda>a. series_objs st ! a) (series_partially_watched_by_all report),
      series_partially_watched_by_some =
        map (\<lambda>a. series_objs st ! a) (series_partially_watched_by_some report),
      Report.jellyfin_url = Report.jellyfin_url report,
      Report.radarr_url = Report.radarr_url report,
      Report.sonarr_url = Report.sonarr_url report\<rparr>"

text \<open>
  The module's global \<open>current_report\<close> (\<open>None\<close> until \<open>set_report\<close> runs), with the
  store its objects live in.
\<close>

record app =
  heap :: store
  current_report :: "(addr, addr) Report option"

definition set_report :: "(addr, addr) Report \<Rightarrow> app \<Rightarrow> app" where
  "set_report report a = a\<lparr>current_report := Some report\<rparr>"

text \<open>
  \<open>GET /api/report\<close>. The test \<open>if current_report\<close> is false for \<open>None\<close> and true for
  every \<open>Report\<close>: the class defines neither \<open>__bool__\<close> nor \<open>__len__\<close>.
\<close>

datatype api_response = No_report_available | Report_body "(MovieInfo, SeriesInfo) Report"

definition get_report :: "app \<Rightarrow> api_response" where
  "get_report a =
     (case current_report a of
        None \<Rightarrow> No_report_available
      | Some report \<Rightarrow> Report_body (model_dump (heap a) report))"

text \<open>
  \<open>main\<close> from the call of \<open>collect_data\<close> on: an exception ends the process with
  status 1 (\<open>except Exception\<close>), otherwise the report is set and the server runs.
\<close>

datatype main_result = Exit int | Serving app

definition main :: "ArrCleanerService \<Rightarrow> responses \<Rightarrow> main_result" where
  "main service served =
     (case collect_data service served of
        Inl e \<Rightarrow> Exit 1
      | Inr (report, st) \<Rightarrow> Serving (set_report report \<lparr>heap = st, current_report = None\<rparr>))"

section \<open>Auxiliary functions of the proofs\<close>

text \<open>
  The entries of all users in the order the loops of \<open>_generate_report\<close> visit them
  (user name and address), the dicts those loops build as folds over the entries, the
  store after a categorising loop, and the addresses such a loop files.
\<close>

definition watchers_of :: "(string \<times> string list) list \<Rightarrow> string \<Rightarrow> string list" where
  "watchers_of ws key = (case map_of ws key of None \<Rightarrow> [] | Some names \<Rightarrow> names)"

definition movie_entries :: "(addr, addr) UserWatchData list \<Rightarrow> (string \<times> addr) list" where
  "movie_entries users_data =
     concat (map (\<lambda>user_data. map (\<lambda>a. (username user_data, a)) (watched_movies user_data)) users_data)"

definition series_entries :: "(addr, addr) UserWatchData list \<Rightarrow> (string \<times> addr) list" where
  "series_entries users_data =
     concat (map (\<lambda>user_data. map (\<lambda>a. (username user_data, a)) (watched_series user_data)) users_data)"

definition add_watchers ::
  "(addr \<Rightarrow> string) \<Rightarrow> (string \<times> string list) list \<Rightarrow> (string \<times> addr) list \<Rightarrow> (string \<times> string list) list" where
  "add_watchers key_of ws entries = foldl (\<lambda>w (name, a). append_watcher (key_of a) name w) ws entries"

definition add_data ::
  "(addr \<Rightarrow> string) \<Rightarrow> (string \<rightharpoonup> addr) \<Rightarrow> (string \<times> addr) list \<Rightarrow> (string \<rightharpoonup> addr)" where
  "add_data key_of d entries = foldl (\<lambda>d (name, a). d(key_of a \<mapsto> a)) d entries"

definition attach_movies :: "(string \<rightharpoonup> addr) \<Rightarrow> store \<Rightarrow> (string \<times> string list) list \<Rightarrow> store" where
  "attach_movies d st ws = foldl (\<lambda>s (k, names). set_movie_watchers (the (d k)) names s) st ws"

definition attach_series :: "(string \<rightharpoonup> addr) \<Rightarrow> store \<Rightarrow> (string \<times> string list) list \<Rightarrow> store" where
  "attach_series d st ws = foldl (\<lambda>s (k, names). set_series_watchers (the (d k)) names s) st ws"

definition filed :: "(string \<rightharpoonup> addr) \<Rightarrow> (string list \<Rightarrow> bool) \<Rightarrow> (string \<times> string list) list \<Rightarrow> addr list" where
  "filed d P ws = map (\<lambda>(k, names). the (d k)) (filter (\<lambda>(k, names). P names) ws)"

text \<open>
  The grouping key of the object at an address; the user names and the last address
  among the entries with a given key; the series entries of each partition; the dicts
  \<open>_generate_report\<close> holds after its first two pairs of loops, under the names of
  its local variables; the store after its last loop; the keys of a list of entries.
\<close>

definition movie_key_at :: "store \<Rightarrow> addr \<Rightarrow> string" where
  "movie_key_at st a = movie_key (movie_objs st ! a)"

definition series_key_at :: "store \<Rightarrow> addr \<Rightarrow> string" where
  "series_key_at st a = series_key (series_objs st ! a)"

definition names_for :: "(addr \<Rightarrow> string) \<Rightarrow> (string \<times> addr) list \<Rightarrow> string \<Rightarrow> string list" where
  "names_for key_of entries k = map fst (filter (\<lambda>(n, a). key_of a = k) entries)"

definition last_for :: "(addr \<Rightarrow> string) \<Rightarrow> (string \<times> addr) list \<Rightarrow> string \<Rightarrow> addr" where
  "last_for key_of entries k = snd (last (filter (\<lambda>(n, a). key_of a = k) entries))"

definition fully_entries :: "store \<Rightarrow> (addr, addr) UserWatchData list \<Rightarrow> (string \<times> addr) list" where
  "fully_entries st users_data =
     filter (\<lambda>(n, a). is_fully_watched (series_objs st ! a)) (series_entries users_data)"

definition partially_entries :: "store \<Rightarrow> (addr, addr) UserWatchData list \<Rightarrow> (string \<times> addr) list" where
  "partially_entries st users_data =
     filter (\<lambda>(n, a). \<not> is_fully_watched (series_objs st ! a)) (series_entries users_data)"

definition movie_watchers :: "store \<Rightarrow> (addr, addr) UserWatchData list \<Rightarrow> (string \<times> string list) list" where
  "movie_watchers st users_data = fst (track_movies st users_data ([], Map.empty))"

definition movie_data :: "store \<Rightarrow> (addr, addr) UserWatchData list \<Rightarrow> (string \<rightharpoonup> addr)" where
  "movie_data st users_data = snd (track_movies st users_data ([], Map.empty))"

definition series_watchers_full :: "store \<Rightarrow> (addr, addr) UserWatchData list \<Rightarrow> (string \<times> string list) list" where
  "series_watchers_full st users_data = fst (track_series st users_data ([], [], Map.empty))"

definition series_watchers_partial :: "store \<Rightarrow> (addr, addr) UserWatchData list \<Rightarrow> (string \<times> string list) list" where
  "series_watchers_partial st users_data = fst (snd (track_series st users_data ([], [], Map.empty)))"

definition series_data :: "store \<Rightarrow> (addr, addr) UserWatchData list \<Rightarrow> (string \<rightharpoonup> addr)" where
  "series_data st users_data = snd (snd (track_series st users_data ([], [], Map.empty)))"

definition final_store :: "store \<Rightarrow> (addr, addr) UserWatchData list \<Rightarrow> store" where
  "final_store st users_data =
     attach_series (series_data st users_data)
       (attach_series (series_data st users_data)
          (attach_movies (movie_data st users_data) st (movie_watchers st users_data))
          (series_watchers_full st users_data))
       (series_watchers_partial st users_data)"

definition key_set :: "(addr \<Rightarrow> string) \<Rightarrow> (string \<times> addr) list \<Rightarrow> string set" where
  "key_set key_of entries = (\<lambda>(n, a). key_of a) ` set entries"

text \<open>
  The \<open>SeriesInfo\<close> objects the series loop of \<open>collect_data\<close> creates for one user.
\<close>

definition series_infos ::
  "jellyfin_item list \<Rightarrow> (string option \<Rightarrow> json list) \<Rightarrow> (string \<rightharpoonup> sonarr_series) \<Rightarrow> SeriesInfo list" where
  "series_infos items episodes sonarr_lookup =
     concat (map (\<lambda>series.
        case parse_series series (episodes (item_Id series)) sonarr_lookup of
          Inr (Some info) \<Rightarrow> [info]
        | _ \<Rightarrow> []) items)"

section \<open>Predicates the properties are stated with\<close>

text \<open>
  An episode \<open>is_series_fully_watched\<close> can read: a dict whose \<open>UserData\<close>, when
  present, is a dict.
\<close>

definition well_formed_episode :: "json \<Rightarrow> bool" where
  "well_formed_episode ep =
     (case ep of
        JObj kvs \<Rightarrow>
          (case map_of kvs ''UserData'' of
             None \<Rightarrow> True
           | Some (JObj user_data) \<Rightarrow> True
           | Some _ \<Rightarrow> False)
      | _ \<Rightarrow> False)"

text \<open>
  The request of \<open>authenticate\<close> raised an \<open>httpx.HTTPError\<close>: in \<open>post\<close> or in
  \<open>raise_for_status\<close>.
\<close>

definition request_failed :: "post_outcome \<Rightarrow> bool" where
  "request_failed outcome =
     (case outcome of HTTPError \<Rightarrow> True | Responded resp \<Rightarrow> raises_for_status resp)"

text \<open>
  Every address of the users' lists is the address of an object of the store.
\<close>

definition valid_refs :: "store \<Rightarrow> (addr, addr) UserWatchData list \<Rightarrow> bool" where
  "valid_refs st users_data =
     list_all (\<lambda>user_data.
        list_all (\<lambda>a. a < length (movie_objs st)) (watched_movies user_data) \<and>
        list_all (\<lambda>a. a < length (series_objs st)) (watched_series user_data)) users_data"

text \<open>
  No user's list holds two movies, or two series, with the same grouping key.
\<close>

definition one_entry_per_key :: "store \<Rightarrow> (addr, addr) UserWatchData list \<Rightarrow> bool" where
  "one_entry_per_key st users_data =
     list_all (\<lambda>user_data.
        distinct (map (movie_key_at st) (watched_movies user_data)) \<and>
        distinct (map (series_key_at st) (watched_series user_data))) users_data"

text \<open>
  An entry of a user's record stems from a series with watched episodes: for the
  series of the entry and that user, \<open>is_series_fully_watched\<close> returns the watched
  count the entry holds, and the count is not 0.
\<close>

definition watched_nonzero :: "responses \<Rightarrow> string \<Rightarrow> SeriesInfo \<Rightarrow> bool" where
  "watched_nonzero served uid info =
     (case is_series_fully_watched (episodes_of served (SeriesInfo.jellyfin_id info) uid) of
        Inl e \<Rightarrow> False
      | Inr (fully, watched, total_count) \<Rightarrow> watched \<noteq> 0 \<and> watched_episodes info = watched)"

section \<open>Example inputs\<close>

definition example_service :: ArrCleanerService where
  "example_service =
     \<lparr>jellyfin = \<lparr>access_token = JNull, user_id = JNull\<rparr>,
      jellyfin_url = Some ''http://jellyfin:8096'', radarr_url = None, sonarr_url = None\<rparr>"

text \<open>A movie as \<open>_parse_movie\<close> builds it, from its title and its path.\<close>

definition example_movie :: "string \<Rightarrow> string \<Rightarrow> MovieInfo" where
  "example_movie t p =
     \<lparr>MovieInfo.title = t, year = Some 2021, tmdb_id = None, imdb_id = None, path = Some p,
      in_radarr = False, radarr_id = None, jellyfin_id = None, watched_by_users = []\<rparr>"

text \<open>
  A series of 26 episodes as \<open>_parse_series\<close> builds it, from its title, its path and
  the number of episodes the user has watched.
\<close>

definition example_series :: "string \<Rightarrow> string \<Rightarrow> int \<Rightarrow> SeriesInfo" where
  "example_series t p watched =
     \<lparr>SeriesInfo.title = t, year = Some 2017, tvdb_id = None, imdb_id = None, path = Some p,
      in_sonarr = False, sonarr_id = None, sonarr_title_slug = None, jellyfin_id = None,
      total_episodes = 26, watched_episodes = watched, is_fully_watched = (watched = 26),
      watched_by_users = []\<rparr>"

text \<open>One user whose list holds the same movie twice (two copies in two libraries).\<close>

definition duplicate_users :: "(addr, addr) UserWatchData list" where
  "duplicate_users =
     [\<lparr>UserWatchData.user_id = ''u1'', username = ''alice'', watched_movies = [0, 1],
       watched_series = []\<rparr>]"

definition duplicate_store :: store where
  "duplicate_store =
     \<lparr>movie_objs = [example_movie ''Dune'' ''/movies/Dune.mkv'', example_movie ''Dune'' ''/uhd/Dune.mkv''],
      series_objs = []\<rparr>"

text \<open>
  Two users: alice has watched one movie and all of a series, bob the same movie,
  another one, and a part of the same series.
\<close>

definition two_users :: "(addr, addr) UserWatchData list" where
  "two_users =
     [\<lparr>UserWatchData.user_id = ''u1'', username = ''alice'', watched_movies = [0],
       watched_series = [0]\<rparr>,
      \<lparr>UserWatchData.user_id = ''u2'', username = ''bob'', watched_movies = [1, 2],
       watched_series = [1]\<rparr>]"

definition two_users_store :: store where
  "two_users_store =
     \<lparr>movie_objs = [example_movie ''Dune'' ''/movies/Dune.mkv'',
                    example_movie ''Dune'' ''/movies/Dune.mkv'',
                    example_movie ''Old'' ''/movies/Old.mkv''],
      series_objs = [example_series ''Dark'' ''/tv/Dark'' 26, example_series ''Dark'' ''/tv/Dark'' 3]\<rparr>"

text \<open>
  A run with two users and one series of two episodes: alice has played none of them,
  bob the first one.
\<close>

definition dark_item :: jellyfin_item where
  "dark_item =
     \<lparr>Name = Some ''Dark'', ProductionYear = Some 2017,
      ProviderIds = Some \<lparr>Tmdb = None, Imdb = Some ''tt5753856'', Tvdb = Some ''334824''\<rparr>,
      Path = Some ''/tv/Dark'', item_Id = Some ''s1''\<rparr>"

definition example_responses :: responses where
  "example_responses =
     \<lparr>auth_outcome = Responded \<lparr>raises_for_status = False,
        json_body = Some (JObj [(''AccessToken'', JStr ''t0''), (''User'', JObj [(''Id'', JStr ''u0'')])])\<rparr>,
      jellyfin_users = [\<lparr>user_Id = ''u1'', user_Name = ''alice''\<rparr>, \<lparr>user_Id = ''u2'', user_Name = ''bob''\<rparr>],
      watched_movies_of = (\<lambda>uid. []),
      watched_series_of = (\<lambda>uid. [dark_item]),
      episodes_of = (\<lambda>series_id uid.
        [JObj [(''UserData'', JObj [(''Played'', JBool (uid = ''u2''))])],
         JObj [(''UserData'', JObj [(''Played'', JBool False)])]]),
      radarr_movies = [],
      sonarr_series_list = []\<rparr>"

section \<open>The invariant of the collecting loops\<close>

text \<open>
  The addresses of the records collected so far are addresses of the store, and every
  series entry stems from a series with watched episodes.
\<close>

definition collected_ok :: "responses \<Rightarrow> store \<Rightarrow> (addr, addr) UserWatchData list \<Rightarrow> bool" where
  "collected_ok served st users_data =
     (valid_refs st users_data \<and>
      list_all (\<lambda>user_data.
        list_all (\<lambda>a. watched_nonzero served (UserWatchData.user_id user_data) (series_objs st ! a))
          (watched_series user_data)) users_data)"

section \<open>Properties\<close>

subsection \<open>Strings of integers and the grouping key\<close>

lemma digit_char_inj: "a < 10 \<Longrightarrow> b < 10 \<Longrightarrow> digit_char a = digit_char b \<Longrightarrow> a = b"
proof -
  assume a: "a < 10" and b: "b < 10" and e: "digit_char a = digit_char b"
  have d: "distinct ''0123456789''" by simp
  have l: "length ''0123456789'' = 10" by simp
  from e have "''0123456789'' ! a = ''0123456789'' ! b" by (simp only: digit_char_def)
  with d a b l show "a = b" by (simp only: nth_eq_iff_index_eq)
qed

lemma digit_char_in: "d < 10 \<Longrightarrow> digit_char d \<in> set ''0123456789''"
  unfolding digit_char_def by (rule nth_mem) simp

lemma str_nat_digits: "set (str_nat n) \<subseteq> set ''0123456789''"
proof (induction n rule: str_nat.induct)
  case (1 n)
  show ?case
  proof (cases "n < 10")
    case True
    then show ?thesis using digit_char_in [of n] by (subst str_nat.simps) simp
  next
    case False
    have "n mod 10 < 10" by simp
    then have "digit_char (n mod 10) \<in> set ''0123456789''" by (rule digit_char_in)
    with False 1 show ?thesis by (subst str_nat.simps) simp
  qed
qed

lemma str_nat_nonempty: "str_nat n \<noteq> []"
  by (subst str_nat.simps) simp

lemma str_nat_inj: "str_nat m = str_nat n \<Longrightarrow> m = n"
proof (induction m arbitrary: n rule: str_nat.induct)
  case (1 m)
  show ?case
  proof (cases "m < 10")
    case True
    then have m: "str_nat m = [digit_char m]" by (subst str_nat.simps) simp
    show ?thesis
    proof (cases "n < 10")
      case True
      then have "str_nat n = [digit_char n]" by (subst str_nat.simps) simp
      with m 1(2) have "digit_char m = digit_char n" by simp
      with \<open>m < 10\<close> True show ?thesis by (rule digit_char_inj)
    next
      case False
      then have "str_nat n = str_nat (n div 10) @ [digit_char (n mod 10)]"
        by (subst str_nat.simps) simp
      with m 1(2) have "str_nat (n div 10) = []" by simp
      then show ?thesis by (simp add: str_nat_nonempty)
    qed
  next
    case False
    then have m: "str_nat m = str_nat (m div 10) @ [digit_char (m mod 10)]"
      by (subst str_nat.simps) simp
    show ?thesis
    proof (cases "n < 10")
      case True
      then have "str_nat n = [digit_char n]" by (subst str_nat.simps) simp
      with m 1(2) have "str_nat (m div 10) = []" by simp
      then show ?thesis by (simp add: str_nat_nonempty)
    next
      case n: False
      then have "str_nat n = str_nat (n div 10) @ [digit_char (n mod 10)]"
        by (subst str_nat.simps) simp
      with m 1(2) have e: "str_nat (m div 10) = str_nat (n div 10)"
        and d: "digit_char (m mod 10) = digit_char (n mod 10)" by simp_all
      from 1(1) [OF False e] have q: "m div 10 = n div 10" .
      have "m mod 10 = n mod 10" using d by (intro digit_char_inj) simp_all
      with q show ?thesis by (metis div_mult_mod_eq)
    qed
  qed
qed

lemma digit_not_special:
  "c \<in> set ''0123456789'' \<Longrightarrow> c \<noteq> CHR ''_'' \<and> c \<noteq> CHR ''-'' \<and> c \<noteq> CHR ''N''"
  by auto

lemma str_nat_not_special:
  "c \<in> set (str_nat n) \<Longrightarrow> c \<noteq> CHR ''_'' \<and> c \<noteq> CHR ''-'' \<and> c \<noteq> CHR ''N''"
  using str_nat_digits [of n] digit_not_special [of c] by (meson subsetD)

lemma str_int_not_special:
  "c \<in> set (str_int i) \<Longrightarrow> c \<noteq> CHR ''_'' \<and> c \<noteq> CHR ''N''"
  using str_nat_not_special [of c "nat i"] str_nat_not_special [of c "nat (- i)"]
  by (cases "i < 0") (auto simp: str_int_def)

lemma hd_str_nat: "hd (str_nat n) \<noteq> CHR ''-''"
proof -
  have "hd (str_nat n) \<in> set (str_nat n)" by (simp add: str_nat_nonempty)
  then show ?thesis using str_nat_not_special by blast
qed

lemma str_int_inj: "str_int i = str_int j \<Longrightarrow> i = j"
proof -
  assume e: "str_int i = str_int j"
  show "i = j"
  proof (cases "i < 0")
    case True
    show ?thesis
    proof (cases "j < 0")
      case True
      with \<open>i < 0\<close> e have "str_nat (nat (- i)) = str_nat (nat (- j))" by (simp add: str_int_def)
      then have "nat (- i) = nat (- j)" by (rule str_nat_inj)
      with True \<open>i < 0\<close> show ?thesis by simp
    next
      case False
      with True e have "CHR ''-'' # str_nat (nat (- i)) = str_nat (nat j)" by (simp add: str_int_def)
      then have "hd (str_nat (nat j)) = CHR ''-''" by (metis list.sel(1))
      with hd_str_nat show ?thesis by blast
    qed
  next
    case False
    show ?thesis
    proof (cases "j < 0")
      case True
      with False e have "CHR ''-'' # str_nat (nat (- j)) = str_nat (nat i)" by (simp add: str_int_def)
      then have "hd (str_nat (nat i)) = CHR ''-''" by (metis list.sel(1))
      with hd_str_nat show ?thesis by blast
    next
      case j: False
      with False e have "str_nat (nat i) = str_nat (nat j)" by (simp add: str_int_def)
      then have "nat i = nat j" by (rule str_nat_inj)
      with False j show ?thesis by simp
    qed
  qed
qed

lemma None_not_str_int: "str_int i \<noteq> ''None''"
proof
  assume "str_int i = ''None''"
  then have "CHR ''N'' \<in> set (str_int i)" by simp
  then show False using str_int_not_special by blast
qed

lemma str_optional_int_inj: "str_optional_int x = str_optional_int y \<Longrightarrow> x = y"
  using None_not_str_int
  by (cases x; cases y) (auto simp: str_optional_int_def dest: str_int_inj simp del: )

lemma str_optional_int_no_underscore: "CHR ''_'' \<notin> set (str_optional_int y)"
proof (cases y)
  case None
  then show ?thesis by (simp add: str_optional_int_def)
next
  case (Some i)
  then show ?thesis using str_int_not_special [of "CHR ''_''" i] by (auto simp: str_optional_int_def)
qed

lemma split_at_first_sep:
  "us @ c # vs = us' @ c # vs' \<Longrightarrow> c \<notin> set us \<Longrightarrow> c \<notin> set us' \<Longrightarrow> us = us' \<and> vs = vs'"
proof (induction us arbitrary: us')
  case Nil
  then show ?case by (cases us') auto
next
  case (Cons u us)
  then show ?case by (cases us') auto
qed

lemma split_at_last_sep:
  assumes "xs @ c # ys = xs' @ c # ys'" and "c \<notin> set ys" and "c \<notin> set ys'"
  shows "xs = xs' \<and> ys = ys'"
proof -
  from assms(1) have "rev (xs @ c # ys) = rev (xs' @ c # ys')" by (rule arg_cong)
  then have "rev ys @ c # rev xs = rev ys' @ c # rev xs'" by simp
  moreover have "c \<notin> set (rev ys)" "c \<notin> set (rev ys')" using assms by simp_all
  ultimately have "rev ys = rev ys' \<and> rev xs = rev xs'"
    by (rule split_at_first_sep)
  then show ?thesis by simp
qed

lemma movie_key_inj:
  "movie_key a = movie_key b \<longleftrightarrow> MovieInfo.title a = MovieInfo.title b \<and> MovieInfo.year a = MovieInfo.year b"
proof
  assume "movie_key a = movie_key b"
  then have "MovieInfo.title a @ CHR ''_'' # str_optional_int (MovieInfo.year a)
      = MovieInfo.title b @ CHR ''_'' # str_optional_int (MovieInfo.year b)"
    by (simp add: movie_key_def)
  then have "MovieInfo.title a = MovieInfo.title b \<and>
      str_optional_int (MovieInfo.year a) = str_optional_int (MovieInfo.year b)"
    by (rule split_at_last_sep) (rule str_optional_int_no_underscore)+
  then show "MovieInfo.title a = MovieInfo.title b \<and> MovieInfo.year a = MovieInfo.year b"
    using str_optional_int_inj by blast
next
  assume "MovieInfo.title a = MovieInfo.title b \<and> MovieInfo.year a = MovieInfo.year b"
  then show "movie_key a = movie_key b" by (simp add: movie_key_def)
qed

subsection \<open>The Jellyfin client\<close>

lemma played_well_formed: "well_formed_episode ep \<Longrightarrow> \<exists>b. played ep = Inr b"
proof (cases ep)
  case (JObj kvs)
  assume w: "well_formed_episode ep"
  show ?thesis
  proof (cases "map_of kvs ''UserData''")
    case None
    with JObj show ?thesis by (auto simp: played_def)
  next
    case (Some user_data)
    with JObj w show ?thesis
      by (cases user_data) (auto simp: played_def well_formed_episode_def)
  qed
qed (simp_all add: well_formed_episode_def)

lemma count_played_returns: "list_all well_formed_episode eps \<Longrightarrow> \<exists>n. count_played eps = Inr n"
proof (induction eps)
  case Nil
  then show ?case by simp
next
  case (Cons ep eps)
  then obtain n where n: "count_played eps = Inr n" by auto
  from Cons.prems obtain b where "played ep = Inr b" using played_well_formed by auto
  with n show ?case by simp
qed

lemma count_played_value:
  "count_played eps = Inr n \<Longrightarrow> n = int (length (filter (\<lambda>ep. played ep = Inr True) eps))"
proof (induction eps arbitrary: n)
  case Nil
  then show ?case by simp
next
  case (Cons ep eps)
  then show ?case by (auto split: sum.splits if_splits)
qed

text \<open>
  C3. Whenever \<open>is_series_fully_watched\<close> returns a triple, its total count is the
  number of episodes, its watched count the number of episodes whose play flag is set,
  and its boolean is true if and only if the watched count equals the total count and
  the total count is positive; a total count of 0 forces the boolean to be false. It
  returns a triple for every list of well-formed episodes.
\<close>

theorem is_series_fully_watched_iff:
  "(list_all well_formed_episode episodes \<longrightarrow> (\<exists>r. is_series_fully_watched episodes = Inr r)) \<and>
   (\<forall>fully watched total. is_series_fully_watched episodes = Inr (fully, watched, total) \<longrightarrow>
      total = int (length episodes) \<and>
      watched = int (length (filter (\<lambda>ep. played ep = Inr True) episodes)) \<and>
      (fully \<longleftrightarrow> watched = total \<and> 0 < total) \<and>
      (total = 0 \<longrightarrow> \<not> fully))"
proof (intro conjI impI allI)
  assume "list_all well_formed_episode episodes"
  then obtain n where "count_played episodes = Inr n" using count_played_returns by blast
  then show "\<exists>r. is_series_fully_watched episodes = Inr r"
    by (auto simp: is_series_fully_watched_def Let_def)
next
  fix fully watched total
  assume r: "is_series_fully_watched episodes = Inr (fully, watched, total)"
  show "total = int (length episodes)"
    using r by (auto simp: is_series_fully_watched_def Let_def split: if_splits sum.splits)
  show "watched = int (length (filter (\<lambda>ep. played ep = Inr True) episodes))"
    using r count_played_value [of episodes watched]
    by (auto simp: is_series_fully_watched_def Let_def split: if_splits sum.splits)
  show "fully \<longleftrightarrow> watched = total \<and> 0 < total"
    using r by (auto simp: is_series_fully_watched_def Let_def split: if_splits sum.splits)
  then show "total = 0 \<Longrightarrow> \<not> fully" by simp
qed

theorem is_series_fully_watched_iff_witness:
  "list_all well_formed_episode
     [JObj [(''UserData'', JObj [(''Played'', JBool True)])], JObj [(''Name'', JStr ''Pilot'')]] \<and>
   is_series_fully_watched
     [JObj [(''UserData'', JObj [(''Played'', JBool True)])], JObj [(''Name'', JStr ''Pilot'')]]
     = Inr (False, 1, 2) \<and>
   (False \<longleftrightarrow> (1::int) = 2 \<and> (0::int) < 2)"
  using is_series_fully_watched_iff
    [of "[JObj [(''UserData'', JObj [(''Played'', JBool True)])], JObj [(''Name'', JStr ''Pilot'')]]"]
  by (simp add: well_formed_episode_def is_series_fully_watched_def played_def)

text \<open>
  C8, as stated, fails: a response with a success status whose body is a JSON object
  without the key \<open>AccessToken\<close> makes \<open>authenticate\<close> raise \<open>KeyError\<close>, which its
  \<open>except httpx.HTTPError\<close> does not catch.
\<close>

theorem authenticate_raises_counterexample:
  "fst (authenticate \<lparr>access_token = JNull, user_id = JNull\<rparr>
     (Responded \<lparr>raises_for_status = False, json_body = Some (JObj [(''Message'', JStr ''ok'')])\<rparr>))
   = Inl KeyError"
  by (simp add: authenticate_def)

text \<open>
  C8, amended. \<open>authenticate\<close> returns false exactly when its request raised an
  \<open>httpx.HTTPError\<close>; it has then logged the error and left the client as it was. It
  returns true exactly when a response with a success status carries a JSON object with
  an \<open>AccessToken\<close> and a \<open>User\<close> object with an \<open>Id\<close>. For every other response with
  a success status the exception of reading the body leaves the method.
\<close>

theorem authenticate_outcomes:
  "(request_failed outcome \<longrightarrow> authenticate self outcome = (Inr False, self, [INFO, ERROR])) \<and>
   (fst (authenticate self outcome) = Inr False \<longrightarrow> request_failed outcome) \<and>
   (fst (authenticate self outcome) = Inr True \<longleftrightarrow>
      (\<exists>resp kvs token us uid. outcome = Responded resp \<and> \<not> raises_for_status resp \<and>
         json_body resp = Some (JObj kvs) \<and> map_of kvs ''AccessToken'' = Some token \<and>
         map_of kvs ''User'' = Some (JObj us) \<and> map_of us ''Id'' = Some uid)) \<and>
   ((\<exists>e. fst (authenticate self outcome) = Inl e) \<longleftrightarrow>
      \<not> request_failed outcome \<and>
      \<not> (\<exists>resp kvs token us uid. outcome = Responded resp \<and>
         json_body resp = Some (JObj kvs) \<and> map_of kvs ''AccessToken'' = Some token \<and>
         map_of kvs ''User'' = Some (JObj us) \<and> map_of us ''Id'' = Some uid))"
proof (cases outcome)
  case HTTPError
  then show ?thesis by (simp add: authenticate_def request_failed_def)
next
  case (Responded resp)
  show ?thesis
  proof (cases "raises_for_status resp")
    case True
    with Responded show ?thesis by (simp add: authenticate_def request_failed_def)
  next
    case False
    show ?thesis
    proof (cases "json_body resp")
      case None
      with Responded False show ?thesis by (simp add: authenticate_def request_failed_def)
    next
      case (Some data)
      show ?thesis
      proof (cases data)
        case (JObj kvs)
        show ?thesis
        proof (cases "map_of kvs ''AccessToken''")
          case None
          with Responded False Some JObj show ?thesis
            by (simp add: authenticate_def request_failed_def)
        next
          case tok: (Some token)
          show ?thesis
          proof (cases "map_of kvs ''User''")
            case None
            with Responded False Some JObj tok show ?thesis
              by (simp add: authenticate_def request_failed_def)
          next
            case usr: (Some user)
            show ?thesis
            proof (cases user)
              case u: (JObj us)
              with Responded False Some JObj tok usr show ?thesis
                by (cases "map_of us ''Id''") (simp_all add: authenticate_def request_failed_def)
            qed (use Responded False Some JObj tok usr in
                  \<open>simp_all add: authenticate_def request_failed_def\<close>)
          qed
        qed
      qed (use Responded False Some in \<open>simp_all add: authenticate_def request_failed_def\<close>)
    qed
  qed
qed

theorem authenticate_outcomes_witness:
  "request_failed HTTPError \<and>
   authenticate \<lparr>access_token = JNull, user_id = JNull\<rparr> HTTPError
     = (Inr False, \<lparr>access_token = JNull, user_id = JNull\<rparr>, [INFO, ERROR]) \<and>
   fst (authenticate \<lparr>access_token = JNull, user_id = JNull\<rparr>
     (Responded \<lparr>raises_for_status = False,
        json_body = Some (JObj [(''AccessToken'', JStr ''t0''), (''User'', JObj [(''Id'', JStr ''u0'')])])\<rparr>))
   = Inr True"
  using authenticate_outcomes [of HTTPError "\<lparr>access_token = JNull, user_id = JNull\<rparr>"]
    authenticate_outcomes [of "Responded \<lparr>raises_for_status = False,
        json_body = Some (JObj [(''AccessToken'', JStr ''t0''), (''User'', JObj [(''Id'', JStr ''u0'')])])\<rparr>"
      "\<lparr>access_token = JNull, user_id = JNull\<rparr>"]
  by (simp add: request_failed_def)

subsection \<open>The lookup dictionaries\<close>

lemma lookup_fold:
  "foldl (\<lambda>d x. if P x then d(key x \<mapsto> x) else d) d0 xs k =
     (if filter (\<lambda>x. P x \<and> key x = k) xs = [] then d0 k
      else Some (last (filter (\<lambda>x. P x \<and> key x = k) xs)))"
proof (induction xs rule: rev_induct)
  case Nil
  then show ?case by simp
next
  case (snoc x xs)
  then show ?case by simp
qed

lemma radarr_tmdb_lookup_eq:
  "radarr_tmdb_lookup ms k =
     (if filter (\<lambda>m. truthy_int (tmdbId m) \<and> str_optional_int (tmdbId m) = k) ms = [] then None
      else Some (last (filter (\<lambda>m. truthy_int (tmdbId m) \<and> str_optional_int (tmdbId m) = k) ms)))"
  unfolding radarr_tmdb_lookup_def
  using lookup_fold [of "\<lambda>m. truthy_int (tmdbId m)" "\<lambda>m. str_optional_int (tmdbId m)" Map.empty ms k]
  by simp

lemma sonarr_tvdb_lookup_eq:
  "sonarr_tvdb_lookup ss k =
     (if filter (\<lambda>s. truthy_int (tvdbId s) \<and> str_optional_int (tvdbId s) = k) ss = [] then None
      else Some (last (filter (\<lambda>s. truthy_int (tvdbId s) \<and> str_optional_int (tvdbId s) = k) ss)))"
  unfolding sonarr_tvdb_lookup_def
  using lookup_fold [of "\<lambda>s. truthy_int (tvdbId s)" "\<lambda>s. str_optional_int (tvdbId s)" Map.empty ss k]
  by simp

lemma truthy_key_iff:
  "truthy_int x \<and> str_optional_int x = str_int n \<longleftrightarrow> x = Some n \<and> n \<noteq> 0"
proof (cases x)
  case None
  then show ?thesis using None_not_str_int [of n] by (auto simp: truthy_int_def str_optional_int_def)
next
  case (Some i)
  then show ?thesis using str_int_inj [of i n] by (auto simp: truthy_int_def str_optional_int_def)
qed

lemma truthy_key_ex:
  "truthy_int x \<and> str_optional_int x = k \<longleftrightarrow> (\<exists>n. x = Some n \<and> n \<noteq> 0 \<and> k = str_int n)"
  by (cases x) (auto simp: truthy_int_def str_optional_int_def)

lemma last_filter_props: "filter P xs \<noteq> [] \<Longrightarrow> last (filter P xs) \<in> set xs \<and> P (last (filter P xs))"
proof -
  assume "filter P xs \<noteq> []"
  then have "last (filter P xs) \<in> set (filter P xs)" by (rule last_in_set)
  then show ?thesis by simp
qed

lemma radarr_lookup_sound:
  assumes a: "radarr_tmdb_lookup movie_list k = Some movie"
  shows "movie \<in> set movie_list \<and> (\<exists>n. tmdbId movie = Some n \<and> n \<noteq> 0 \<and> k = str_int n)"
proof -
  let ?P = "\<lambda>m. truthy_int (tmdbId m) \<and> str_optional_int (tmdbId m) = k"
  from a have ne: "filter ?P movie_list \<noteq> []" and l: "movie = last (filter ?P movie_list)"
    by (simp_all add: radarr_tmdb_lookup_eq split: if_splits)
  from last_filter_props [OF ne] l have "movie \<in> set movie_list" and "?P movie" by simp_all
  then show ?thesis using truthy_key_ex [of "tmdbId movie" k] by simp
qed

lemma radarr_lookup_complete:
  assumes a: "movie \<in> set movie_list" "tmdbId movie = Some n" "n \<noteq> 0"
  shows "radarr_tmdb_lookup movie_list (str_int n) =
        Some (last (filter (\<lambda>m. tmdbId m = Some n) movie_list))"
proof -
  have e: "(\<lambda>m. truthy_int (tmdbId m) \<and> str_optional_int (tmdbId m) = str_int n)
      = (\<lambda>m. tmdbId m = Some n)"
    using a truthy_key_iff by auto
  from a have "filter (\<lambda>m. tmdbId m = Some n) movie_list \<noteq> []"
    by (auto simp: filter_empty_conv)
  then show ?thesis by (simp add: radarr_tmdb_lookup_eq e)
qed

lemma sonarr_lookup_sound:
  assumes a: "sonarr_tvdb_lookup sonarr_list k = Some series"
  shows "series \<in> set sonarr_list \<and> (\<exists>n. tvdbId series = Some n \<and> n \<noteq> 0 \<and> k = str_int n)"
proof -
  let ?P = "\<lambda>s. truthy_int (tvdbId s) \<and> str_optional_int (tvdbId s) = k"
  from a have ne: "filter ?P sonarr_list \<noteq> []" and l: "series = last (filter ?P sonarr_list)"
    by (simp_all add: sonarr_tvdb_lookup_eq split: if_splits)
  from last_filter_props [OF ne] l have "series \<in> set sonarr_list" and "?P series" by simp_all
  then show ?thesis using truthy_key_ex [of "tvdbId series" k] by simp
qed

lemma sonarr_lookup_complete:
  assumes a: "series \<in> set sonarr_list" "tvdbId series = Some n" "n \<noteq> 0"
  shows "sonarr_tvdb_lookup sonarr_list (str_int n) =
        Some (last (filter (\<lambda>s. tvdbId s = Some n) sonarr_list))"
proof -
  have e: "(\<lambda>s. truthy_int (tvdbId s) \<and> str_optional_int (tvdbId s) = str_int n)
      = (\<lambda>s. tvdbId s = Some n)"
    using a truthy_key_iff by auto
  from a have "filter (\<lambda>s. tvdbId s = Some n) sonarr_list \<noteq> []"
    by (auto simp: filter_empty_conv)
  then show ?thesis by (simp add: sonarr_tvdb_lookup_eq e)
qed

text \<open>
  C7, amended. Each lookup dictionary holds, under the string form of an identifier,
  the last item of the catalog list with that identifier, for every identifier that is
  present, not null and not zero; it holds nothing else. An item whose identifier is
  missing, null or zero is in no entry.
\<close>

theorem lookup_entries:
  "(radarr_tmdb_lookup movie_list k = Some movie \<longrightarrow>
      movie \<in> set movie_list \<and> (\<exists>n. tmdbId movie = Some n \<and> n \<noteq> 0 \<and> k = str_int n)) \<and>
   (movie \<in> set movie_list \<and> tmdbId movie = Some n \<and> n \<noteq> 0 \<longrightarrow>
      radarr_tmdb_lookup movie_list (str_int n) =
        Some (last (filter (\<lambda>m. tmdbId m = Some n) movie_list))) \<and>
   (sonarr_tvdb_lookup sonarr_list k = Some series \<longrightarrow>
      series \<in> set sonarr_list \<and> (\<exists>n. tvdbId series = Some n \<and> n \<noteq> 0 \<and> k = str_int n)) \<and>
   (series \<in> set sonarr_list \<and> tvdbId series = Some n \<and> n \<noteq> 0 \<longrightarrow>
      sonarr_tvdb_lookup sonarr_list (str_int n) =
        Some (last (filter (\<lambda>s. tvdbId s = Some n) sonarr_list)))"
  using radarr_lookup_sound [of movie_list k movie] radarr_lookup_complete [of movie movie_list n]
    sonarr_lookup_sound [of sonarr_list k series] sonarr_lookup_complete [of series sonarr_list n]
  by blast

lemma str_int_0: "str_int 0 = ''0''"
  by (simp add: str_int_def str_nat.simps digit_char_def)
lemma str_int_603: "str_int 603 = ''603''"
  by (simp add: str_int_def str_nat.simps digit_char_def)

text \<open>
  C7, as stated, fails: the test \<open>if movie.get("tmdbId")\<close> is false for the identifier
  0, which is present and not null, so the item is left out.
\<close>

theorem lookup_zero_id_counterexample:
  "tmdbId \<lparr>tmdbId = Some 0, radarr_item_id = Some 7\<rparr> = Some 0 \<and>
   str_optional_int (Some 0) = ''0'' \<and>
   radarr_tmdb_lookup [\<lparr>tmdbId = Some 0, radarr_item_id = Some 7\<rparr>] ''0'' = None"
  by (simp add: radarr_tmdb_lookup_def truthy_int_def str_optional_int_def str_int_0)

theorem lookup_entries_witness:
  "radarr_tmdb_lookup [\<lparr>tmdbId = Some 603, radarr_item_id = Some 1\<rparr>, \<lparr>tmdbId = None, radarr_item_id = Some 2\<rparr>] ''603''
     = Some \<lparr>tmdbId = Some 603, radarr_item_id = Some 1\<rparr> \<and>
   sonarr_tvdb_lookup [\<lparr>tvdbId = Some 603, sonarr_item_id = Some 1, titleSlug = None\<rparr>] ''603''
     = Some \<lparr>tvdbId = Some 603, sonarr_item_id = Some 1, titleSlug = None\<rparr>"
  using lookup_entries [of "[\<lparr>tmdbId = Some 603, radarr_item_id = Some 1\<rparr>, \<lparr>tmdbId = None, radarr_item_id = Some 2\<rparr>]"
      "''603''" "\<lparr>tmdbId = Some 603, radarr_item_id = Some 1\<rparr>" 603
      "[\<lparr>tvdbId = Some 603, sonarr_item_id = Some 1, titleSlug = None\<rparr>]"
      "\<lparr>tvdbId = Some 603, sonarr_item_id = Some 1, titleSlug = None\<rparr>"]
  by (simp add: str_int_603)

subsection \<open>A failed authentication\<close>

text \<open>
  C5. When \<open>authenticate\<close> returns false, \<open>collect_data\<close> returns, without raising,
  a report whose user list and six buckets are empty; \<open>main\<close> passes it to
  \<open>set_report\<close>, and \<open>GET /api/report\<close> then answers with the dump of that report
  (whose user list and buckets are empty), not with the "No report available" object.
\<close>

theorem collect_data_authentication_failed:
  "fst (authenticate (jellyfin self) (auth_outcome served)) = Inr False \<Longrightarrow>
   (\<exists>report st a.
      collect_data self served = Inr (report, st) \<and>
      users report = [] \<and>
      movies_watched_by_all report = [] \<and> movies_watched_by_some report = [] \<and>
      series_fully_watched_by_all report = [] \<and> series_fully_watched_by_some report = [] \<and>
      series_partially_watched_by_all report = [] \<and> series_partially_watched_by_some report = [] \<and>
      main self served = Serving a \<and>
      current_report a = Some report \<and>
      get_report a = Report_body (model_dump st report) \<and>
      get_report a \<noteq> No_report_available \<and>
      users (model_dump st report) = [] \<and>
      movies_watched_by_all (model_dump st report) = [] \<and>
      movies_watched_by_some (model_dump st report) = [] \<and>
      series_fully_watched_by_all (model_dump st report) = [] \<and>
      series_fully_watched_by_some (model_dump st report) = [] \<and>
      series_partially_watched_by_all (model_dump st report) = [] \<and>
      series_partially_watched_by_some (model_dump st report) = [])"
  by (simp add: collect_data_def main_def set_report_def get_report_def Report_default_def
      model_dump_def)

theorem collect_data_authentication_failed_witness:
  "fst (authenticate \<lparr>access_token = JNull, user_id = JNull\<rparr> HTTPError) = Inr False \<and>
   collect_data
     \<lparr>jellyfin = \<lparr>access_token = JNull, user_id = JNull\<rparr>,
      jellyfin_url = Some ''http://jellyfin'', radarr_url = None, sonarr_url = None\<rparr>
     \<lparr>auth_outcome = HTTPError, jellyfin_users = [], watched_movies_of = (\<lambda>u. []),
      watched_series_of = (\<lambda>u. []), episodes_of = (\<lambda>s u. []), radarr_movies = [],
      sonarr_series_list = []\<rparr>
   = Inr (Report_default, empty_store) \<and>
   get_report \<lparr>heap = empty_store, current_report = Some Report_default\<rparr>
     = Report_body (model_dump empty_store Report_default)"
  using collect_data_authentication_failed
    [of "\<lparr>jellyfin = \<lparr>access_token = JNull, user_id = JNull\<rparr>,
      jellyfin_url = Some ''http://jellyfin'', radarr_url = None, sonarr_url = None\<rparr>"
     "\<lparr>auth_outcome = HTTPError, jellyfin_users = [], watched_movies_of = (\<lambda>u. []),
      watched_series_of = (\<lambda>u. []), episodes_of = (\<lambda>s u. []), radarr_movies = [],
      sonarr_series_list = []\<rparr>"]
  by (simp add: authenticate_def collect_data_def get_report_def)

subsection \<open>The loops of \<open>_generate_report\<close>\<close>

lemma map_of_append_watcher:
  "map_of (append_watcher key name ws) k =
     (if k = key then Some (watchers_of ws key @ [name]) else map_of ws k)"
  by (induction ws) (auto simp: watchers_of_def)

lemma watchers_of_append_watcher:
  "watchers_of (append_watcher key name ws) k =
     (if k = key then watchers_of ws key @ [name] else watchers_of ws k)"
  by (simp add: watchers_of_def map_of_append_watcher)

lemma map_fst_append_watcher:
  "set (map fst (append_watcher key name ws)) = insert key (set (map fst ws))"
proof (induction ws)
  case Nil
  then show ?case by simp
next
  case (Cons p ws)
  obtain k names where p: "p = (k, names)" by (cases p)
  show ?case
  proof (cases "k = key")
    case True
    then show ?thesis by (simp add: p)
  next
    case False
    have "set (map fst (append_watcher key name (p # ws)))
        = insert k (set (map fst (append_watcher key name ws)))"
      using False by (simp add: p)
    also have "\<dots> = insert k (insert key (set (map fst ws)))"
      by (simp only: Cons.IH)
    finally show ?thesis by (simp add: p insert_commute)
  qed
qed

lemma keys_append_watcher:
  "fst ` set (append_watcher key name ws) = insert key (fst ` set ws)"
  using map_fst_append_watcher [of key name ws] by simp

lemma distinct_append_watcher:
  "distinct (map fst ws) \<Longrightarrow> distinct (map fst (append_watcher key name ws))"
proof (induction ws)
  case Nil
  then show ?case by simp
next
  case (Cons p ws)
  obtain k names where p: "p = (k, names)" by (cases p)
  show ?case
  proof (cases "k = key")
    case True
    with p Cons.prems show ?thesis by simp
  next
    case False
    from Cons have d: "distinct (map fst (append_watcher key name ws))" by simp
    from Cons.prems p have "k \<notin> fst ` set ws" by simp
    with False have "k \<notin> fst ` set (append_watcher key name ws)"
      by (simp add: keys_append_watcher)
    with d p False show ?thesis by simp
  qed
qed

lemma map_snd_append_watcher:
  "[] \<notin> set (map snd ws) \<Longrightarrow> [] \<notin> set (map snd (append_watcher key name ws))"
proof (induction ws)
  case Nil
  then show ?case by simp
next
  case (Cons p ws)
  obtain k names where p: "p = (k, names)" by (cases p)
  from Cons.prems have n: "names \<noteq> []" and r: "[] \<notin> set (map snd ws)"
    by (auto simp: p)
  from Cons.IH [OF r] have i: "[] \<notin> set (map snd (append_watcher key name ws))" .
  show ?case
  proof (cases "k = key")
    case True
    have "set (map snd (append_watcher key name (p # ws)))
        = insert (names @ [name]) (set (map snd ws))"
      using True by (simp add: p)
    with r show ?thesis by auto
  next
    case False
    have "set (map snd (append_watcher key name (p # ws)))
        = insert names (set (map snd (append_watcher key name ws)))"
      using False by (simp add: p)
    with i n show ?thesis by auto
  qed
qed

lemma nonempty_append_watcher:
  "[] \<notin> snd ` set ws \<Longrightarrow> [] \<notin> snd ` set (append_watcher key name ws)"
  using map_snd_append_watcher [of ws key name] by simp

lemma add_watchers_Nil [simp]: "add_watchers key_of ws [] = ws"
  by (simp add: add_watchers_def)

lemma add_watchers_Cons [simp]:
  "add_watchers key_of ws ((name, a) # es) = add_watchers key_of (append_watcher (key_of a) name ws) es"
  by (simp add: add_watchers_def)

lemma add_watchers_append [simp]:
  "add_watchers key_of ws (es @ fs) = add_watchers key_of (add_watchers key_of ws es) fs"
  by (simp add: add_watchers_def)

lemma add_data_Nil [simp]: "add_data key_of d [] = d"
  by (simp add: add_data_def)

lemma add_data_Cons [simp]:
  "add_data key_of d ((name, a) # es) = add_data key_of (d(key_of a \<mapsto> a)) es"
  by (simp add: add_data_def)

lemma add_data_append [simp]:
  "add_data key_of d (es @ fs) = add_data key_of (add_data key_of d es) fs"
  by (simp add: add_data_def)

lemma track_user_movies_eq:
  "track_user_movies st name as (ws, d) =
     (add_watchers (\<lambda>a. movie_key (movie_objs st ! a)) ws (map (\<lambda>a. (name, a)) as),
      add_data (\<lambda>a. movie_key (movie_objs st ! a)) d (map (\<lambda>a. (name, a)) as))"
  by (induction as arbitrary: ws d) (simp_all add: Let_def)

lemma track_movies_eq:
  "track_movies st users_data (ws, d) =
     (add_watchers (\<lambda>a. movie_key (movie_objs st ! a)) ws (movie_entries users_data),
      add_data (\<lambda>a. movie_key (movie_objs st ! a)) d (movie_entries users_data))"
  by (induction users_data arbitrary: ws d) (simp_all add: movie_entries_def track_user_movies_eq)

lemma track_user_series_eq:
  "track_user_series st name as (wfull, wpart, d) =
     (add_watchers (\<lambda>a. series_key (series_objs st ! a)) wfull
        (filter (\<lambda>(n, a). is_fully_watched (series_objs st ! a)) (map (\<lambda>a. (name, a)) as)),
      add_watchers (\<lambda>a. series_key (series_objs st ! a)) wpart
        (filter (\<lambda>(n, a). \<not> is_fully_watched (series_objs st ! a)) (map (\<lambda>a. (name, a)) as)),
      add_data (\<lambda>a. series_key (series_objs st ! a)) d (map (\<lambda>a. (name, a)) as))"
  by (induction as arbitrary: wfull wpart d) (simp_all add: Let_def)

lemma track_series_eq:
  "track_series st users_data (wfull, wpart, d) =
     (add_watchers (\<lambda>a. series_key (series_objs st ! a)) wfull
        (filter (\<lambda>(n, a). is_fully_watched (series_objs st ! a)) (series_entries users_data)),
      add_watchers (\<lambda>a. series_key (series_objs st ! a)) wpart
        (filter (\<lambda>(n, a). \<not> is_fully_watched (series_objs st ! a)) (series_entries users_data)),
      add_data (\<lambda>a. series_key (series_objs st ! a)) d (series_entries users_data))"
  by (induction users_data arbitrary: wfull wpart d) (simp_all add: series_entries_def track_user_series_eq)

lemma watchers_of_add_watchers:
  "watchers_of (add_watchers key_of ws es) k =
     watchers_of ws k @ map fst (filter (\<lambda>(n, a). key_of a = k) es)"
  by (induction es arbitrary: ws) (auto simp: watchers_of_append_watcher)

lemma keys_add_watchers:
  "fst ` set (add_watchers key_of ws es) = fst ` set ws \<union> (\<lambda>(n, a). key_of a) ` set es"
proof (induction es arbitrary: ws)
  case Nil
  then show ?case by simp
next
  case (Cons e es)
  obtain n a where e: "e = (n, a)" by (cases e)
  have "fst ` set (add_watchers key_of ws (e # es))
      = fst ` set (append_watcher (key_of a) n ws) \<union> (\<lambda>(n, a). key_of a) ` set es"
    unfolding e add_watchers_Cons by (rule Cons.IH)
  also have "\<dots> = insert (key_of a) (fst ` set ws) \<union> (\<lambda>(n, a). key_of a) ` set es"
    by (simp only: keys_append_watcher)
  finally show ?case by (simp add: e)
qed

lemma distinct_add_watchers:
  "distinct (map fst ws) \<Longrightarrow> distinct (map fst (add_watchers key_of ws es))"
  by (induction es arbitrary: ws) (auto simp: distinct_append_watcher)

lemma nonempty_add_watchers:
  "[] \<notin> snd ` set ws \<Longrightarrow> [] \<notin> snd ` set (add_watchers key_of ws es)"
proof (induction es arbitrary: ws)
  case Nil
  then show ?case by simp
next
  case (Cons e es)
  obtain n a where e: "e = (n, a)" by (cases e)
  from Cons.prems have "[] \<notin> snd ` set (append_watcher (key_of a) n ws)"
    by (rule nonempty_append_watcher)
  then show ?case unfolding e add_watchers_Cons by (rule Cons.IH)
qed

lemma add_data_eq:
  "add_data key_of d es k =
     (if filter (\<lambda>(n, a). key_of a = k) es = [] then d k
      else Some (snd (last (filter (\<lambda>(n, a). key_of a = k) es))))"
proof (induction es rule: rev_induct)
  case Nil
  then show ?case by simp
next
  case (snoc e es)
  obtain n a where e: "e = (n, a)" by (cases e)
  show ?case using snoc by (simp add: e)
qed

lemma attach_movies_Nil [simp]: "attach_movies d st [] = st"
  by (simp add: attach_movies_def)

lemma attach_movies_Cons [simp]:
  "attach_movies d st ((k, names) # ws) = attach_movies d (set_movie_watchers (the (d k)) names st) ws"
  by (simp add: attach_movies_def)

lemma attach_movies_snoc [simp]:
  "attach_movies d st (ws @ [(k, names)]) = set_movie_watchers (the (d k)) names (attach_movies d st ws)"
  by (simp add: attach_movies_def)

lemma attach_series_Nil [simp]: "attach_series d st [] = st"
  by (simp add: attach_series_def)

lemma attach_series_Cons [simp]:
  "attach_series d st ((k, names) # ws) = attach_series d (set_series_watchers (the (d k)) names st) ws"
  by (simp add: attach_series_def)

lemma attach_series_snoc [simp]:
  "attach_series d st (ws @ [(k, names)]) = set_series_watchers (the (d k)) names (attach_series d st ws)"
  by (simp add: attach_series_def)

lemma filed_Nil [simp]: "filed d P [] = []"
  by (simp add: filed_def)

lemma filed_Cons [simp]:
  "filed d P ((k, names) # ws) = (if P names then the (d k) # filed d P ws else filed d P ws)"
  by (simp add: filed_def)

lemma categorize_movies_eq:
  "\<forall>k \<in> fst ` set ws. d k \<noteq> None \<Longrightarrow>
   categorize_movies ws d total_users (report, st) =
     Inr (report\<lparr>movies_watched_by_all :=
                   movies_watched_by_all report @ filed d (\<lambda>names. length names = total_users) ws,
                 movies_watched_by_some :=
                   movies_watched_by_some report @ filed d (\<lambda>names. length names \<noteq> total_users) ws\<rparr>,
          attach_movies d st ws)"
proof (induction ws arbitrary: report st)
  case Nil
  then show ?case by simp
next
  case (Cons p ws)
  obtain k names where p: "p = (k, names)" by (cases p)
  from Cons.prems obtain a where a: "d k = Some a" by (auto simp: p)
  from Cons.prems have r: "\<forall>k \<in> fst ` set ws. d k \<noteq> None" by simp
  show ?case unfolding p
    by (simp add: a Let_def Cons.IH [OF r])
qed

lemma categorize_series_full_eq:
  "\<forall>k \<in> fst ` set ws. d k \<noteq> None \<Longrightarrow>
   categorize_series_full ws d total_users (report, st) =
     Inr (report\<lparr>series_fully_watched_by_all :=
                   series_fully_watched_by_all report @ filed d (\<lambda>names. length names = total_users) ws,
                 series_fully_watched_by_some :=
                   series_fully_watched_by_some report @ filed d (\<lambda>names. length names \<noteq> total_users) ws\<rparr>,
          attach_series d st ws)"
proof (induction ws arbitrary: report st)
  case Nil
  then show ?case by simp
next
  case (Cons p ws)
  obtain k names where p: "p = (k, names)" by (cases p)
  from Cons.prems obtain a where a: "d k = Some a" by (auto simp: p)
  from Cons.prems have r: "\<forall>k \<in> fst ` set ws. d k \<noteq> None" by simp
  show ?case unfolding p
    by (simp add: a Let_def Cons.IH [OF r])
qed

lemma categorize_series_partial_eq:
  "\<forall>k \<in> fst ` set ws. d k \<noteq> None \<Longrightarrow>
   categorize_series_partial ws d total_users (report, st) =
     Inr (report\<lparr>series_partially_watched_by_all :=
                   series_partially_watched_by_all report @ filed d (\<lambda>names. length names = total_users) ws,
                 series_partially_watched_by_some :=
                   series_partially_watched_by_some report @ filed d (\<lambda>names. length names \<noteq> total_users) ws\<rparr>,
          attach_series d st ws)"
proof (induction ws arbitrary: report st)
  case Nil
  then show ?case by simp
next
  case (Cons p ws)
  obtain k names where p: "p = (k, names)" by (cases p)
  from Cons.prems obtain a where a: "d k = Some a" by (auto simp: p)
  from Cons.prems have r: "\<forall>k \<in> fst ` set ws. d k \<noteq> None" by simp
  show ?case unfolding p
    by (simp add: a Let_def Cons.IH [OF r])
qed

lemma set_movie_watchers_nth:
  "movie_objs (set_movie_watchers b names s) ! a =
     (if a = b \<and> b < length (movie_objs s)
      then (movie_objs s ! b)\<lparr>MovieInfo.watched_by_users := names\<rparr> else movie_objs s ! a)"
  by (cases "b < length (movie_objs s)")
    (simp_all add: set_movie_watchers_def nth_list_update list_update_beyond)

lemma set_movie_watchers_other [simp]:
  "series_objs (set_movie_watchers b names s) = series_objs s"
  "length (movie_objs (set_movie_watchers b names s)) = length (movie_objs s)"
  by (simp_all add: set_movie_watchers_def)

lemma set_series_watchers_nth:
  "series_objs (set_series_watchers b names s) ! a =
     (if a = b \<and> b < length (series_objs s)
      then (series_objs s ! b)\<lparr>SeriesInfo.watched_by_users := names\<rparr> else series_objs s ! a)"
  by (cases "b < length (series_objs s)")
    (simp_all add: set_series_watchers_def nth_list_update list_update_beyond)

lemma set_series_watchers_other [simp]:
  "movie_objs (set_series_watchers b names s) = movie_objs s"
  "length (series_objs (set_series_watchers b names s)) = length (series_objs s)"
  by (simp_all add: set_series_watchers_def)

lemma attach_movies_other [simp]:
  "series_objs (attach_movies d st ws) = series_objs st"
  "length (movie_objs (attach_movies d st ws)) = length (movie_objs st)"
  by (induction ws arbitrary: st) auto

lemma attach_series_other [simp]:
  "movie_objs (attach_series d st ws) = movie_objs st"
  "length (series_objs (attach_series d st ws)) = length (series_objs st)"
  by (induction ws arbitrary: st) auto

lemma attach_movies_fields:
  "(movie_objs (attach_movies d st ws) ! a)\<lparr>MovieInfo.watched_by_users := x\<rparr>
     = (movie_objs st ! a)\<lparr>MovieInfo.watched_by_users := x\<rparr>"
proof (induction ws rule: rev_induct)
  case Nil
  then show ?case by simp
next
  case (snoc p ws)
  obtain k names where p: "p = (k, names)" by (cases p)
  show ?case
  proof (cases "a = the (d k) \<and> the (d k) < length (movie_objs st)")
    case True
    then have "movie_objs (attach_movies d st (ws @ [p])) ! a
        = (movie_objs (attach_movies d st ws) ! a)\<lparr>MovieInfo.watched_by_users := names\<rparr>"
      by (simp add: p set_movie_watchers_nth)
    then show ?thesis using snoc by simp
  next
    case False
    then have "movie_objs (attach_movies d st (ws @ [p])) ! a = movie_objs (attach_movies d st ws) ! a"
      by (auto simp: p set_movie_watchers_nth)
    then show ?thesis using snoc by simp
  qed
qed

lemma attach_series_fields:
  "(series_objs (attach_series d st ws) ! a)\<lparr>SeriesInfo.watched_by_users := x\<rparr>
     = (series_objs st ! a)\<lparr>SeriesInfo.watched_by_users := x\<rparr>"
proof (induction ws rule: rev_induct)
  case Nil
  then show ?case by simp
next
  case (snoc p ws)
  obtain k names where p: "p = (k, names)" by (cases p)
  show ?case
  proof (cases "a = the (d k) \<and> the (d k) < length (series_objs st)")
    case True
    then have "series_objs (attach_series d st (ws @ [p])) ! a
        = (series_objs (attach_series d st ws) ! a)\<lparr>SeriesInfo.watched_by_users := names\<rparr>"
      by (simp add: p set_series_watchers_nth)
    then show ?thesis using snoc by simp
  next
    case False
    then have "series_objs (attach_series d st (ws @ [p])) ! a = series_objs (attach_series d st ws) ! a"
      by (auto simp: p set_series_watchers_nth)
    then show ?thesis using snoc by simp
  qed
qed

lemma attach_movies_untouched:
  "\<forall>k \<in> fst ` set ws. the (d k) \<noteq> a \<Longrightarrow>
   movie_objs (attach_movies d st ws) ! a = movie_objs st ! a"
proof (induction ws rule: rev_induct)
  case Nil
  then show ?case by simp
next
  case (snoc p ws)
  obtain k names where p: "p = (k, names)" by (cases p)
  from snoc.prems have ne: "the (d k) \<noteq> a" and r: "\<forall>k \<in> fst ` set ws. the (d k) \<noteq> a"
    by (simp_all add: p)
  from ne have "movie_objs (attach_movies d st (ws @ [p])) ! a = movie_objs (attach_movies d st ws) ! a"
    by (simp add: p set_movie_watchers_nth)
  with snoc.IH [OF r] show ?case by simp
qed

lemma attach_series_untouched:
  "\<forall>k \<in> fst ` set ws. the (d k) \<noteq> a \<Longrightarrow>
   series_objs (attach_series d st ws) ! a = series_objs st ! a"
proof (induction ws rule: rev_induct)
  case Nil
  then show ?case by simp
next
  case (snoc p ws)
  obtain k names where p: "p = (k, names)" by (cases p)
  from snoc.prems have ne: "the (d k) \<noteq> a" and r: "\<forall>k \<in> fst ` set ws. the (d k) \<noteq> a"
    by (simp_all add: p)
  from ne have "series_objs (attach_series d st (ws @ [p])) ! a = series_objs (attach_series d st ws) ! a"
    by (simp add: p set_series_watchers_nth)
  with snoc.IH [OF r] show ?case by simp
qed

lemma attach_movies_append:
  "attach_movies d st (ws @ vs) = attach_movies d (attach_movies d st ws) vs"
  by (simp add: attach_movies_def)

lemma attach_series_append:
  "attach_series d st (ws @ vs) = attach_series d (attach_series d st ws) vs"
  by (simp add: attach_series_def)

lemma attach_movies_touched:
  assumes dist: "distinct (map fst ws)"
    and inj: "\<And>k1 k2. k1 \<in> fst ` set ws \<Longrightarrow> k2 \<in> fst ` set ws \<Longrightarrow> the (d k1) = the (d k2) \<Longrightarrow> k1 = k2"
    and mem: "(k, names) \<in> set ws"
    and len: "the (d k) < length (movie_objs st)"
  shows "movie_objs (attach_movies d st ws) ! the (d k)
     = (movie_objs st ! the (d k))\<lparr>MovieInfo.watched_by_users := names\<rparr>"
proof -
  from mem obtain ws1 ws2 where ws: "ws = ws1 @ (k, names) # ws2" by (meson split_list)
  let ?a = "the (d k)"
  let ?s1 = "attach_movies d st ws1"
  let ?s2 = "set_movie_watchers ?a names ?s1"
  have kin: "k \<in> fst ` set ws" using mem by (rule rev_image_eqI) simp
  have "\<forall>k' \<in> fst ` set ws2. the (d k') \<noteq> ?a"
  proof
    fix k' assume k': "k' \<in> fst ` set ws2"
    then have k'in: "k' \<in> fst ` set ws" by (auto simp: ws)
    from dist have "k \<notin> fst ` set ws2" by (simp add: ws)
    with k' have "k' \<noteq> k" by blast
    with inj [OF k'in kin] show "the (d k') \<noteq> ?a" by blast
  qed
  then have "movie_objs (attach_movies d ?s2 ws2) ! ?a = movie_objs ?s2 ! ?a"
    by (rule attach_movies_untouched)
  also have "\<dots> = (movie_objs ?s1 ! ?a)\<lparr>MovieInfo.watched_by_users := names\<rparr>"
    using len by (simp add: set_movie_watchers_nth)
  also have "\<dots> = (movie_objs st ! ?a)\<lparr>MovieInfo.watched_by_users := names\<rparr>"
    by (rule attach_movies_fields)
  finally show ?thesis by (simp add: ws attach_movies_append)
qed

lemma attach_series_touched:
  assumes dist: "distinct (map fst ws)"
    and inj: "\<And>k1 k2. k1 \<in> fst ` set ws \<Longrightarrow> k2 \<in> fst ` set ws \<Longrightarrow> the (d k1) = the (d k2) \<Longrightarrow> k1 = k2"
    and mem: "(k, names) \<in> set ws"
    and len: "the (d k) < length (series_objs st)"
  shows "series_objs (attach_series d st ws) ! the (d k)
     = (series_objs st ! the (d k))\<lparr>SeriesInfo.watched_by_users := names\<rparr>"
proof -
  from mem obtain ws1 ws2 where ws: "ws = ws1 @ (k, names) # ws2" by (meson split_list)
  let ?a = "the (d k)"
  let ?s1 = "attach_series d st ws1"
  let ?s2 = "set_series_watchers ?a names ?s1"
  have kin: "k \<in> fst ` set ws" using mem by (rule rev_image_eqI) simp
  have "\<forall>k' \<in> fst ` set ws2. the (d k') \<noteq> ?a"
  proof
    fix k' assume k': "k' \<in> fst ` set ws2"
    then have k'in: "k' \<in> fst ` set ws" by (auto simp: ws)
    from dist have "k \<notin> fst ` set ws2" by (simp add: ws)
    with k' have "k' \<noteq> k" by blast
    with inj [OF k'in kin] show "the (d k') \<noteq> ?a" by blast
  qed
  then have "series_objs (attach_series d ?s2 ws2) ! ?a = series_objs ?s2 ! ?a"
    by (rule attach_series_untouched)
  also have "\<dots> = (series_objs ?s1 ! ?a)\<lparr>SeriesInfo.watched_by_users := names\<rparr>"
    using len by (simp add: set_series_watchers_nth)
  also have "\<dots> = (series_objs st ! ?a)\<lparr>SeriesInfo.watched_by_users := names\<rparr>"
    by (rule attach_series_fields)
  finally show ?thesis by (simp add: ws attach_series_append)
qed

subsection \<open>The result of \<open>_generate_report\<close>\<close>

lemma watchers_of_Nil [simp]: "watchers_of [] k = []"
  by (simp add: watchers_of_def)

lemma names_for_empty_iff: "names_for key_of es k = [] \<longleftrightarrow> k \<notin> (\<lambda>(n, a). key_of a) ` set es"
  by (auto simp: names_for_def filter_empty_conv)

lemma add_watchers_member:
  assumes "(k, names) \<in> set (add_watchers key_of [] es)"
  shows "names = names_for key_of es k \<and> names \<noteq> [] \<and> k \<in> (\<lambda>(n, a). key_of a) ` set es"
proof -
  let ?w = "add_watchers key_of [] es"
  have d: "distinct (map fst ?w)" by (rule distinct_add_watchers) simp
  with assms have "map_of ?w k = Some names" by simp
  then have "watchers_of ?w k = names" by (simp add: watchers_of_def)
  then have n: "names = names_for key_of es k"
    by (simp add: watchers_of_add_watchers names_for_def)
  have "[] \<notin> snd ` set ?w" by (rule nonempty_add_watchers) simp
  with assms have ne: "names \<noteq> []" by force
  from assms have "k \<in> fst ` set ?w" by force
  then have "k \<in> (\<lambda>(n, a). key_of a) ` set es" by (simp add: keys_add_watchers)
  with n ne show ?thesis by simp
qed

lemma add_data_Some:
  "add_data key_of Map.empty es k = Some a \<longleftrightarrow>
     k \<in> (\<lambda>(n, a). key_of a) ` set es \<and> a = last_for key_of es k"
  by (auto simp: add_data_eq last_for_def filter_empty_conv)

lemma last_for_props:
  assumes "k \<in> (\<lambda>(n, a). key_of a) ` set es"
  shows "key_of (last_for key_of es k) = k \<and> last_for key_of es k \<in> snd ` set es"
proof -
  let ?f = "filter (\<lambda>(n, a). key_of a = k) es"
  from assms have "?f \<noteq> []" by (auto simp: filter_empty_conv)
  then have "last ?f \<in> set ?f" by (rule last_in_set)
  then have "last ?f \<in> set es" and "key_of (snd (last ?f)) = k" by (auto simp: split_beta)
  then show ?thesis unfolding last_for_def by force
qed

lemma add_data_key:
  assumes "add_data key_of Map.empty es k = Some a"
  shows "key_of a = k \<and> a \<in> snd ` set es"
  using assms last_for_props [of k key_of es] by (simp add: add_data_Some)

lemma add_data_inj:
  assumes "add_data key_of Map.empty es k1 = Some a" and "add_data key_of Map.empty es k2 = Some a"
  shows "k1 = k2"
  using add_data_key [OF assms(1)] add_data_key [OF assms(2)] by simp

lemma movie_key_at_fun: "(\<lambda>a. movie_key (movie_objs st ! a)) = movie_key_at st"
  by (simp add: movie_key_at_def fun_eq_iff)

lemma series_key_at_fun: "(\<lambda>a. series_key (series_objs st ! a)) = series_key_at st"
  by (simp add: series_key_at_def fun_eq_iff)

lemma track_movies_start:
  "track_movies st users_data ([], Map.empty) =
     (add_watchers (movie_key_at st) [] (movie_entries users_data),
      add_data (movie_key_at st) Map.empty (movie_entries users_data))"
  by (simp add: track_movies_eq movie_key_at_fun)

lemma track_series_start:
  "track_series st users_data ([], [], Map.empty) =
     (add_watchers (series_key_at st) [] (fully_entries st users_data),
      add_watchers (series_key_at st) [] (partially_entries st users_data),
      add_data (series_key_at st) Map.empty (series_entries users_data))"
  by (simp add: track_series_eq series_key_at_fun fully_entries_def partially_entries_def)

lemma keys_have_data:
  assumes "set es \<subseteq> set es'"
  shows "\<forall>k \<in> fst ` set (add_watchers key_of [] es). add_data key_of Map.empty es' k \<noteq> None"
proof
  fix k assume "k \<in> fst ` set (add_watchers key_of [] es)"
  then have "k \<in> (\<lambda>(n, a). key_of a) ` set es" by (simp add: keys_add_watchers)
  with assms have "k \<in> (\<lambda>(n, a). key_of a) ` set es'" by blast
  then have "add_data key_of Map.empty es' k = Some (last_for key_of es' k)"
    by (simp add: add_data_Some)
  then show "add_data key_of Map.empty es' k \<noteq> None" by simp
qed

lemma generate_report_empty:
  "generate_report self [] st =
     Inr (Report_default\<lparr>users := [], Report.jellyfin_url := jellyfin_url self,
            Report.radarr_url := radarr_url self, Report.sonarr_url := sonarr_url self\<rparr>, st)"
  by (simp add: generate_report_def)

lemma generate_report_nonempty:
  assumes "users_data \<noteq> []"
  shows "generate_report self users_data st =
     Inr (\<lparr>users = users_data,
           movies_watched_by_all =
             filed (add_data (movie_key_at st) Map.empty (movie_entries users_data))
               (\<lambda>names. length names = length users_data)
               (add_watchers (movie_key_at st) [] (movie_entries users_data)),
           movies_watched_by_some =
             filed (add_data (movie_key_at st) Map.empty (movie_entries users_data))
               (\<lambda>names. length names \<noteq> length users_data)
               (add_watchers (movie_key_at st) [] (movie_entries users_data)),
           series_fully_watched_by_all =
             filed (add_data (series_key_at st) Map.empty (series_entries users_data))
               (\<lambda>names. length names = length users_data)
               (add_watchers (series_key_at st) [] (fully_entries st users_data)),
           series_fully_watched_by_some =
             filed (add_data (series_key_at st) Map.empty (series_entries users_data))
               (\<lambda>names. length names \<noteq> length users_data)
               (add_watchers (series_key_at st) [] (fully_entries st users_data)),
           series_partially_watched_by_all =
             filed (add_data (series_key_at st) Map.empty (series_entries users_data))
               (\<lambda>names. length names = length users_data)
               (add_watchers (series_key_at st) [] (partially_entries st users_data)),
           series_partially_watched_by_some =
             filed (add_data (series_key_at st) Map.empty (series_entries users_data))
               (\<lambda>names. length names \<noteq> length users_data)
               (add_watchers (series_key_at st) [] (partially_entries st users_data)),
           Report.jellyfin_url = jellyfin_url self,
           Report.radarr_url = radarr_url self,
           Report.sonarr_url = sonarr_url self\<rparr>,
          attach_series (add_data (series_key_at st) Map.empty (series_entries users_data))
            (attach_series (add_data (series_key_at st) Map.empty (series_entries users_data))
               (attach_movies (add_data (movie_key_at st) Map.empty (movie_entries users_data)) st
                  (add_watchers (movie_key_at st) [] (movie_entries users_data)))
               (add_watchers (series_key_at st) [] (fully_entries st users_data)))
            (add_watchers (series_key_at st) [] (partially_entries st users_data)))"
proof -
  have m: "\<forall>k \<in> fst ` set (add_watchers (movie_key_at st) [] (movie_entries users_data)).
      add_data (movie_key_at st) Map.empty (movie_entries users_data) k \<noteq> None"
    by (rule keys_have_data) simp
  have f: "\<forall>k \<in> fst ` set (add_watchers (series_key_at st) [] (fully_entries st users_data)).
      add_data (series_key_at st) Map.empty (series_entries users_data) k \<noteq> None"
    by (rule keys_have_data) (simp add: fully_entries_def)
  have p: "\<forall>k \<in> fst ` set (add_watchers (series_key_at st) [] (partially_entries st users_data)).
      add_data (series_key_at st) Map.empty (series_entries users_data) k \<noteq> None"
    by (rule keys_have_data) (simp add: partially_entries_def)
  show ?thesis
    using assms
    by (simp add: generate_report_def track_movies_start track_series_start
        categorize_movies_eq [OF m] categorize_series_full_eq [OF f]
        categorize_series_partial_eq [OF p] Report_default_def Let_def)
qed

lemma movie_watchers_eq: "movie_watchers st uds = add_watchers (movie_key_at st) [] (movie_entries uds)"
  by (simp add: movie_watchers_def track_movies_start)

lemma movie_data_eq: "movie_data st uds = add_data (movie_key_at st) Map.empty (movie_entries uds)"
  by (simp add: movie_data_def track_movies_start)

lemma series_watchers_full_eq:
  "series_watchers_full st uds = add_watchers (series_key_at st) [] (fully_entries st uds)"
  by (simp add: series_watchers_full_def track_series_start)

lemma series_watchers_partial_eq:
  "series_watchers_partial st uds = add_watchers (series_key_at st) [] (partially_entries st uds)"
  by (simp add: series_watchers_partial_def track_series_start)

lemma series_data_eq: "series_data st uds = add_data (series_key_at st) Map.empty (series_entries uds)"
  by (simp add: series_data_def track_series_start)

lemma generate_report_result:
  assumes "users_data \<noteq> []"
  shows "generate_report self users_data st =
     Inr (\<lparr>users = users_data,
           movies_watched_by_all =
             filed (movie_data st users_data) (\<lambda>names. length names = length users_data)
               (movie_watchers st users_data),
           movies_watched_by_some =
             filed (movie_data st users_data) (\<lambda>names. length names \<noteq> length users_data)
               (movie_watchers st users_data),
           series_fully_watched_by_all =
             filed (series_data st users_data) (\<lambda>names. length names = length users_data)
               (series_watchers_full st users_data),
           series_fully_watched_by_some =
             filed (series_data st users_data) (\<lambda>names. length names \<noteq> length users_data)
               (series_watchers_full st users_data),
           series_partially_watched_by_all =
             filed (series_data st users_data) (\<lambda>names. length names = length users_data)
               (series_watchers_partial st users_data),
           series_partially_watched_by_some =
             filed (series_data st users_data) (\<lambda>names. length names \<noteq> length users_data)
               (series_watchers_partial st users_data),
           Report.jellyfin_url = jellyfin_url self,
           Report.radarr_url = radarr_url self,
           Report.sonarr_url = sonarr_url self\<rparr>,
          final_store st users_data)"
  unfolding final_store_def movie_watchers_eq movie_data_eq series_watchers_full_eq
    series_watchers_partial_eq series_data_eq
  using assms by (rule generate_report_nonempty)

lemma add_watchers_has_key:
  assumes "k \<in> key_set key_of es"
  shows "(k, names_for key_of es k) \<in> set (add_watchers key_of [] es)"
proof -
  from assms have "k \<in> fst ` set (add_watchers key_of [] es)"
    by (simp add: keys_add_watchers key_set_def)
  then obtain names where m: "(k, names) \<in> set (add_watchers key_of [] es)" by force
  from add_watchers_member [OF m] have "names = names_for key_of es k" by simp
  with m show ?thesis by simp
qed

lemma add_watchers_member_iff:
  "(k, names) \<in> set (add_watchers key_of [] es) \<longleftrightarrow>
     k \<in> key_set key_of es \<and> names = names_for key_of es k"
proof
  assume m: "(k, names) \<in> set (add_watchers key_of [] es)"
  from add_watchers_member [OF m]
  show "k \<in> key_set key_of es \<and> names = names_for key_of es k"
    by (simp add: key_set_def)
next
  assume "k \<in> key_set key_of es \<and> names = names_for key_of es k"
  then show "(k, names) \<in> set (add_watchers key_of [] es)"
    using add_watchers_has_key [of k key_of es] by simp
qed

lemma filed_member:
  "a \<in> set (filed d P (add_watchers key_of [] es)) \<longleftrightarrow>
     (\<exists>k \<in> key_set key_of es. P (names_for key_of es k) \<and> a = the (d k))"
proof
  assume "a \<in> set (filed d P (add_watchers key_of [] es))"
  then obtain k names where m: "(k, names) \<in> set (add_watchers key_of [] es)"
    and p: "P names" and a: "a = the (d k)"
    by (auto simp: filed_def)
  from m have "k \<in> key_set key_of es" and "names = names_for key_of es k"
    by (simp_all add: add_watchers_member_iff)
  with p a show "\<exists>k \<in> key_set key_of es. P (names_for key_of es k) \<and> a = the (d k)" by blast
next
  assume "\<exists>k \<in> key_set key_of es. P (names_for key_of es k) \<and> a = the (d k)"
  then obtain k where k: "k \<in> key_set key_of es" and p: "P (names_for key_of es k)"
    and a: "a = the (d k)" by blast
  from k have "(k, names_for key_of es k) \<in> set (add_watchers key_of [] es)"
    by (rule add_watchers_has_key)
  with p have "(k, names_for key_of es k)
      \<in> set (filter (\<lambda>(k, names). P names) (add_watchers key_of [] es))" by simp
  then have "(\<lambda>(k, names). the (d k)) (k, names_for key_of es k)
      \<in> set (filed d P (add_watchers key_of [] es))"
    unfolding filed_def set_map by (rule imageI)
  with a show "a \<in> set (filed d P (add_watchers key_of [] es))" by simp
qed

lemma add_data_the:
  "k \<in> key_set key_of es \<Longrightarrow> the (add_data key_of Map.empty es k) = last_for key_of es k"
  using add_data_Some [of key_of es k "last_for key_of es k"] by (simp add: key_set_def)

lemma filed_member_data:
  assumes "set es \<subseteq> set es'"
  shows "a \<in> set (filed (add_data key_of Map.empty es') P (add_watchers key_of [] es)) \<longleftrightarrow>
     (\<exists>k \<in> key_set key_of es. P (names_for key_of es k) \<and> a = last_for key_of es' k)"
proof -
  have "\<And>k. k \<in> key_set key_of es \<Longrightarrow> k \<in> key_set key_of es'"
    using assms by (auto simp: key_set_def)
  then have "\<And>k. k \<in> key_set key_of es \<Longrightarrow>
      the (add_data key_of Map.empty es' k) = last_for key_of es' k"
    by (simp add: add_data_the)
  then show ?thesis unfolding filed_member by auto
qed

lemma movie_entries_Cons:
  "movie_entries (ud # uds) = map (\<lambda>a. (username ud, a)) (watched_movies ud) @ movie_entries uds"
  by (simp add: movie_entries_def)

lemma series_entries_Cons:
  "series_entries (ud # uds) = map (\<lambda>a. (username ud, a)) (watched_series ud) @ series_entries uds"
  by (simp add: series_entries_def)

lemma movie_entries_member:
  "(n, a) \<in> set (movie_entries uds) \<longleftrightarrow>
     (\<exists>ud \<in> set uds. n = username ud \<and> a \<in> set (watched_movies ud))"
  by (auto simp: movie_entries_def)

lemma series_entries_member:
  "(n, a) \<in> set (series_entries uds) \<longleftrightarrow>
     (\<exists>ud \<in> set uds. n = username ud \<and> a \<in> set (watched_series ud))"
  by (auto simp: series_entries_def)

lemma valid_movie_entry:
  "valid_refs st uds \<Longrightarrow> (n, a) \<in> set (movie_entries uds) \<Longrightarrow> a < length (movie_objs st)"
  by (auto simp: valid_refs_def movie_entries_member list_all_iff)

lemma valid_series_entry:
  "valid_refs st uds \<Longrightarrow> (n, a) \<in> set (series_entries uds) \<Longrightarrow> a < length (series_objs st)"
  by (auto simp: valid_refs_def series_entries_member list_all_iff)

lemma fully_entries_subset: "set (fully_entries st uds) \<subseteq> set (series_entries uds)"
  by (simp add: fully_entries_def)

lemma partially_entries_subset: "set (partially_entries st uds) \<subseteq> set (series_entries uds)"
  by (simp add: partially_entries_def)

lemma key_set_mono: "set es \<subseteq> set es' \<Longrightarrow> key_set key_of es \<subseteq> key_set key_of es'"
  by (auto simp: key_set_def)

lemma last_for_in:
  assumes "k \<in> key_set key_of es"
  shows "key_of (last_for key_of es k) = k" and "\<exists>n. (n, last_for key_of es k) \<in> set es"
proof -
  from assms have "k \<in> (\<lambda>(n, a). key_of a) ` set es" by (simp add: key_set_def)
  from last_for_props [OF this]
  show "key_of (last_for key_of es k) = k" and "\<exists>n. (n, last_for key_of es k) \<in> set es"
    by auto
qed

lemma the_data_inj:
  assumes "k1 \<in> key_set key_of es" and "k2 \<in> key_set key_of es"
    and "the (add_data key_of Map.empty es k1) = the (add_data key_of Map.empty es k2)"
  shows "k1 = k2"
proof -
  from assms have "last_for key_of es k1 = last_for key_of es k2" by (simp add: add_data_the)
  then have "key_of (last_for key_of es k1) = key_of (last_for key_of es k2)" by simp
  with assms(1,2) show ?thesis by (simp add: last_for_in)
qed

lemma keys_of_watchers: "fst ` set (add_watchers key_of [] es) = key_set key_of es"
  by (simp add: keys_add_watchers key_set_def)

lemma names_for_append:
  "names_for key_of (es @ fs) k = names_for key_of es k @ names_for key_of fs k"
  by (simp add: names_for_def)

lemma distinct_filter_le_1:
  "distinct (map f xs) \<Longrightarrow> length (filter (\<lambda>x. f x = k) xs) \<le> 1"
proof (induction xs)
  case Nil
  then show ?case by simp
next
  case (Cons x xs)
  show ?case
  proof (cases "f x = k")
    case True
    with Cons.prems have "k \<notin> f ` set xs" by auto
    then have "filter (\<lambda>x. f x = k) xs = []" by (auto simp: filter_empty_conv)
    with True show ?thesis by simp
  next
    case False
    with Cons show ?thesis by simp
  qed
qed

lemma names_for_one_user:
  "distinct (map key_of as) \<Longrightarrow> length (names_for key_of (map (\<lambda>a. (n, a)) as) k) \<le> 1"
  using distinct_filter_le_1 [of key_of as k]
  by (simp add: names_for_def filter_map comp_def)

lemma movie_names_le_users:
  "list_all (\<lambda>ud. distinct (map key_of (watched_movies ud))) uds \<Longrightarrow>
   length (names_for key_of (movie_entries uds) k) \<le> length uds"
proof (induction uds)
  case Nil
  then show ?case by (simp add: movie_entries_def names_for_def)
next
  case (Cons ud uds)
  from Cons.prems have "distinct (map key_of (watched_movies ud))" by simp
  then have "length (names_for key_of (map (\<lambda>a. (username ud, a)) (watched_movies ud)) k) \<le> 1"
    by (rule names_for_one_user)
  moreover from Cons have "length (names_for key_of (movie_entries uds) k) \<le> length uds" by simp
  ultimately show ?case by (simp add: movie_entries_Cons names_for_append)
qed

lemma series_names_le_users:
  "list_all (\<lambda>ud. distinct (map key_of (watched_series ud))) uds \<Longrightarrow>
   length (names_for key_of (series_entries uds) k) \<le> length uds"
proof (induction uds)
  case Nil
  then show ?case by (simp add: series_entries_def names_for_def)
next
  case (Cons ud uds)
  from Cons.prems have "distinct (map key_of (watched_series ud))" by simp
  then have "length (names_for key_of (map (\<lambda>a. (username ud, a)) (watched_series ud)) k) \<le> 1"
    by (rule names_for_one_user)
  moreover from Cons have "length (names_for key_of (series_entries uds) k) \<le> length uds" by simp
  ultimately show ?case by (simp add: series_entries_Cons names_for_append)
qed

lemma length_filter_split:
  "length (filter Q (filter P xs)) + length (filter Q (filter (\<lambda>x. \<not> P x) xs)) = length (filter Q xs)"
  by (induction xs) auto

lemma full_partial_names:
  "length (names_for key_of (fully_entries st uds) k) +
   length (names_for key_of (partially_entries st uds) k)
   = length (names_for key_of (series_entries uds) k)"
  unfolding names_for_def fully_entries_def partially_entries_def length_map
  using length_filter_split
    [of "\<lambda>(n, a). key_of a = k" "\<lambda>(n, a). is_fully_watched (series_objs st ! a)" "series_entries uds"]
  by (simp add: split_beta)

lemma names_for_nonempty: "k \<in> key_set key_of es \<Longrightarrow> names_for key_of es k \<noteq> []"
  by (simp add: names_for_empty_iff key_set_def)

lemma names_for_empty: "k \<notin> key_set key_of es \<Longrightarrow> names_for key_of es k = []"
  by (simp add: names_for_empty_iff key_set_def)

lemma final_store_movie_fields:
  "(movie_objs (final_store st uds) ! a)\<lparr>MovieInfo.watched_by_users := x\<rparr>
     = (movie_objs st ! a)\<lparr>MovieInfo.watched_by_users := x\<rparr>"
  by (simp add: final_store_def attach_movies_fields)

lemma final_store_series_fields:
  "(series_objs (final_store st uds) ! a)\<lparr>SeriesInfo.watched_by_users := x\<rparr>
     = (series_objs st ! a)\<lparr>SeriesInfo.watched_by_users := x\<rparr>"
  by (simp add: final_store_def attach_series_fields)

lemma final_store_lengths [simp]:
  "length (movie_objs (final_store st uds)) = length (movie_objs st)"
  "length (series_objs (final_store st uds)) = length (series_objs st)"
  by (simp_all add: final_store_def)

lemma final_store_movie:
  assumes k: "k \<in> key_set (movie_key_at st) (movie_entries uds)"
    and len: "last_for (movie_key_at st) (movie_entries uds) k < length (movie_objs st)"
  shows "movie_objs (final_store st uds) ! last_for (movie_key_at st) (movie_entries uds) k
     = (movie_objs st ! last_for (movie_key_at st) (movie_entries uds) k)
         \<lparr>MovieInfo.watched_by_users := names_for (movie_key_at st) (movie_entries uds) k\<rparr>"
proof -
  let ?es = "movie_entries uds"
  let ?key = "movie_key_at st"
  let ?w = "add_watchers ?key [] ?es"
  let ?d = "add_data ?key Map.empty ?es"
  have a: "the (?d k) = last_for ?key ?es k" using k by (rule add_data_the)
  have "movie_objs (attach_movies ?d st ?w) ! the (?d k)
      = (movie_objs st ! the (?d k))\<lparr>MovieInfo.watched_by_users := names_for ?key ?es k\<rparr>"
  proof (rule attach_movies_touched)
    show "distinct (map fst ?w)" by (rule distinct_add_watchers) simp
    show "(k, names_for ?key ?es k) \<in> set ?w" using k by (rule add_watchers_has_key)
    show "the (?d k) < length (movie_objs st)" using len by (simp only: a)
    fix k1 k2
    assume "k1 \<in> fst ` set ?w" and "k2 \<in> fst ` set ?w" and "the (?d k1) = the (?d k2)"
    then show "k1 = k2" by (simp only: keys_of_watchers the_data_inj)
  qed
  then show ?thesis
    by (simp add: final_store_def movie_watchers_eq movie_data_eq a)
qed

lemma final_store_series_partial:
  assumes k: "k \<in> key_set (series_key_at st) (partially_entries st uds)"
    and len: "last_for (series_key_at st) (series_entries uds) k < length (series_objs st)"
  shows "series_objs (final_store st uds) ! last_for (series_key_at st) (series_entries uds) k
     = (series_objs st ! last_for (series_key_at st) (series_entries uds) k)
         \<lparr>SeriesInfo.watched_by_users := names_for (series_key_at st) (partially_entries st uds) k\<rparr>"
proof -
  let ?es = "series_entries uds"
  let ?ep = "partially_entries st uds"
  let ?key = "series_key_at st"
  let ?w = "add_watchers ?key [] ?ep"
  let ?d = "add_data ?key Map.empty ?es"
  let ?s2 = "attach_series ?d (attach_movies (movie_data st uds) st (movie_watchers st uds))
      (series_watchers_full st uds)"
  have sub: "key_set ?key ?ep \<subseteq> key_set ?key ?es"
    by (rule key_set_mono) (rule partially_entries_subset)
  with k have k': "k \<in> key_set ?key ?es" by blast
  have a: "the (?d k) = last_for ?key ?es k" using k' by (rule add_data_the)
  have "series_objs (attach_series ?d ?s2 ?w) ! the (?d k)
      = (series_objs ?s2 ! the (?d k))\<lparr>SeriesInfo.watched_by_users := names_for ?key ?ep k\<rparr>"
  proof (rule attach_series_touched)
    show "distinct (map fst ?w)" by (rule distinct_add_watchers) simp
    show "(k, names_for ?key ?ep k) \<in> set ?w" using k by (rule add_watchers_has_key)
    show "the (?d k) < length (series_objs ?s2)" using len by (simp add: a)
    fix k1 k2
    assume "k1 \<in> fst ` set ?w" and "k2 \<in> fst ` set ?w" and e: "the (?d k1) = the (?d k2)"
    then have "k1 \<in> key_set ?key ?es" and "k2 \<in> key_set ?key ?es"
      using sub by (auto simp only: keys_of_watchers)
    then show "k1 = k2" using e by (rule the_data_inj)
  qed
  also have "\<dots> = (series_objs st ! the (?d k))
      \<lparr>SeriesInfo.watched_by_users := names_for ?key ?ep k\<rparr>"
    by (simp add: attach_series_fields)
  finally show ?thesis
    by (simp add: final_store_def series_watchers_partial_eq series_data_eq a)
qed

lemma final_store_series_full:
  assumes k: "k \<in> key_set (series_key_at st) (fully_entries st uds)"
    and nk: "k \<notin> key_set (series_key_at st) (partially_entries st uds)"
    and len: "last_for (series_key_at st) (series_entries uds) k < length (series_objs st)"
  shows "series_objs (final_store st uds) ! last_for (series_key_at st) (series_entries uds) k
     = (series_objs st ! last_for (series_key_at st) (series_entries uds) k)
         \<lparr>SeriesInfo.watched_by_users := names_for (series_key_at st) (fully_entries st uds) k\<rparr>"
proof -
  let ?es = "series_entries uds"
  let ?ef = "fully_entries st uds"
  let ?ep = "partially_entries st uds"
  let ?key = "series_key_at st"
  let ?wf = "add_watchers ?key [] ?ef"
  let ?wp = "add_watchers ?key [] ?ep"
  let ?d = "add_data ?key Map.empty ?es"
  let ?s1 = "attach_movies (movie_data st uds) st (movie_watchers st uds)"
  let ?s2 = "attach_series ?d ?s1 ?wf"
  have subf: "key_set ?key ?ef \<subseteq> key_set ?key ?es"
    by (rule key_set_mono) (rule fully_entries_subset)
  have subp: "key_set ?key ?ep \<subseteq> key_set ?key ?es"
    by (rule key_set_mono) (rule partially_entries_subset)
  from k subf have k': "k \<in> key_set ?key ?es" by blast
  have a: "the (?d k) = last_for ?key ?es k" using k' by (rule add_data_the)
  have "\<forall>k' \<in> fst ` set ?wp. the (?d k') \<noteq> the (?d k)"
  proof
    fix k' assume "k' \<in> fst ` set ?wp"
    then have kp: "k' \<in> key_set ?key ?ep" by (simp only: keys_of_watchers)
    with subp have ke: "k' \<in> key_set ?key ?es" by blast
    show "the (?d k') \<noteq> the (?d k)"
    proof
      assume "the (?d k') = the (?d k)"
      with ke k' have "k' = k" by (rule the_data_inj)
      with kp nk show False by simp
    qed
  qed
  then have "series_objs (attach_series ?d ?s2 ?wp) ! the (?d k) = series_objs ?s2 ! the (?d k)"
    by (rule attach_series_untouched)
  also have "\<dots> = (series_objs ?s1 ! the (?d k))
      \<lparr>SeriesInfo.watched_by_users := names_for ?key ?ef k\<rparr>"
  proof (rule attach_series_touched)
    show "distinct (map fst ?wf)" by (rule distinct_add_watchers) simp
    show "(k, names_for ?key ?ef k) \<in> set ?wf" using k by (rule add_watchers_has_key)
    show "the (?d k) < length (series_objs ?s1)" using len by (simp add: a)
    fix k1 k2
    assume "k1 \<in> fst ` set ?wf" and "k2 \<in> fst ` set ?wf" and e: "the (?d k1) = the (?d k2)"
    then have "k1 \<in> key_set ?key ?es" and "k2 \<in> key_set ?key ?es"
      using subf by (auto simp only: keys_of_watchers)
    then show "k1 = k2" using e by (rule the_data_inj)
  qed
  finally show ?thesis
    by (simp add: final_store_def series_watchers_partial_eq series_watchers_full_eq
        series_data_eq a)
qed

subsection \<open>The buckets of the report\<close>

lemmas example_defs = example_service_def example_movie_def example_series_def
  duplicate_users_def duplicate_store_def two_users_def two_users_store_def

lemmas eval_defs = generate_report_def Report_default_def Let_def movie_key_def series_key_def
  set_movie_watchers_def set_series_watchers_def model_dump_def dump_user_def
  movie_entries_def series_entries_def last_for_def movie_key_at_def series_key_at_def
  valid_refs_def one_entry_per_key_def watchers_of_def series_watchers_full_def
  series_watchers_partial_def

lemma movie_bucket_entry:
  assumes v: "valid_refs st uds"
    and a: "a \<in> set (filed (movie_data st uds) P (movie_watchers st uds))"
  shows "\<exists>k \<in> key_set (movie_key_at st) (movie_entries uds).
           P (names_for (movie_key_at st) (movie_entries uds) k) \<and>
           a = last_for (movie_key_at st) (movie_entries uds) k \<and>
           movie_objs (final_store st uds) ! a =
             (movie_objs st ! a)\<lparr>MovieInfo.watched_by_users :=
                names_for (movie_key_at st) (movie_entries uds) k\<rparr>"
proof -
  let ?es = "movie_entries uds" and ?key = "movie_key_at st"
  from a obtain k where k: "k \<in> key_set ?key ?es" and p: "P (names_for ?key ?es k)"
    and l: "a = last_for ?key ?es k"
    unfolding movie_data_eq movie_watchers_eq
    using filed_member_data [of ?es ?es a ?key P] by auto
  from last_for_in(2) [OF k] obtain n where "(n, last_for ?key ?es k) \<in> set ?es" ..
  with v have "last_for ?key ?es k < length (movie_objs st)" by (rule valid_movie_entry)
  with k have "movie_objs (final_store st uds) ! last_for ?key ?es k
     = (movie_objs st ! last_for ?key ?es k)\<lparr>MovieInfo.watched_by_users := names_for ?key ?es k\<rparr>"
    by (rule final_store_movie)
  with k p l show ?thesis by blast
qed

lemma partial_bucket_entry:
  assumes v: "valid_refs st uds"
    and a: "a \<in> set (filed (series_data st uds) P (series_watchers_partial st uds))"
  shows "\<exists>k \<in> key_set (series_key_at st) (partially_entries st uds).
           P (names_for (series_key_at st) (partially_entries st uds) k) \<and>
           a = last_for (series_key_at st) (series_entries uds) k \<and>
           series_objs (final_store st uds) ! a =
             (series_objs st ! a)\<lparr>SeriesInfo.watched_by_users :=
                names_for (series_key_at st) (partially_entries st uds) k\<rparr>"
proof -
  let ?es = "series_entries uds" and ?ep = "partially_entries st uds" and ?key = "series_key_at st"
  from a obtain k where k: "k \<in> key_set ?key ?ep" and p: "P (names_for ?key ?ep k)"
    and l: "a = last_for ?key ?es k"
    unfolding series_data_eq series_watchers_partial_eq
    using filed_member_data [OF partially_entries_subset] by auto
  have "key_set ?key ?ep \<subseteq> key_set ?key ?es"
    by (rule key_set_mono) (rule partially_entries_subset)
  with k have "k \<in> key_set ?key ?es" by blast
  from last_for_in(2) [OF this] obtain n where "(n, last_for ?key ?es k) \<in> set ?es" ..
  with v have "last_for ?key ?es k < length (series_objs st)" by (rule valid_series_entry)
  with k have "series_objs (final_store st uds) ! last_for ?key ?es k
     = (series_objs st ! last_for ?key ?es k)\<lparr>SeriesInfo.watched_by_users := names_for ?key ?ep k\<rparr>"
    by (rule final_store_series_partial)
  with k p l show ?thesis by blast
qed

lemma full_bucket_entry:
  assumes v: "valid_refs st uds"
    and a: "a \<in> set (filed (series_data st uds) P (series_watchers_full st uds))"
  shows "\<exists>k \<in> key_set (series_key_at st) (fully_entries st uds).
           P (names_for (series_key_at st) (fully_entries st uds) k) \<and>
           a = last_for (series_key_at st) (series_entries uds) k \<and>
           series_objs (final_store st uds) ! a =
             (series_objs st ! a)\<lparr>SeriesInfo.watched_by_users :=
                (if k \<in> key_set (series_key_at st) (partially_entries st uds)
                 then names_for (series_key_at st) (partially_entries st uds) k
                 else names_for (series_key_at st) (fully_entries st uds) k)\<rparr>"
proof -
  let ?es = "series_entries uds" and ?ep = "partially_entries st uds"
    and ?ef = "fully_entries st uds" and ?key = "series_key_at st"
  from a obtain k where k: "k \<in> key_set ?key ?ef" and p: "P (names_for ?key ?ef k)"
    and l: "a = last_for ?key ?es k"
    unfolding series_data_eq series_watchers_full_eq
    using filed_member_data [OF fully_entries_subset] by auto
  have "key_set ?key ?ef \<subseteq> key_set ?key ?es"
    by (rule key_set_mono) (rule fully_entries_subset)
  with k have "k \<in> key_set ?key ?es" by blast
  from last_for_in(2) [OF this] obtain n where "(n, last_for ?key ?es k) \<in> set ?es" ..
  with v have len: "last_for ?key ?es k < length (series_objs st)" by (rule valid_series_entry)
  have "series_objs (final_store st uds) ! last_for ?key ?es k
     = (series_objs st ! last_for ?key ?es k)\<lparr>SeriesInfo.watched_by_users :=
          (if k \<in> key_set ?key ?ep then names_for ?key ?ep k else names_for ?key ?ef k)\<rparr>"
  proof (cases "k \<in> key_set ?key ?ep")
    case True
    then show ?thesis using final_store_series_partial [OF True len] by simp
  next
    case False
    then show ?thesis using final_store_series_full [OF k False len] by simp
  qed
  with k p l show ?thesis by blast
qed

lemma movie_count_bound:
  "one_entry_per_key st uds \<Longrightarrow>
   length (names_for (movie_key_at st) (movie_entries uds) k) \<le> length uds"
  by (rule movie_names_le_users) (simp add: one_entry_per_key_def list_all_iff)

lemma series_count_bound:
  assumes "one_entry_per_key st uds"
  shows "length (names_for (series_key_at st) (fully_entries st uds) k) +
     length (names_for (series_key_at st) (partially_entries st uds) k) \<le> length uds"
proof -
  from assms have "list_all (\<lambda>ud. distinct (map (series_key_at st) (watched_series ud))) uds"
    by (simp add: one_entry_per_key_def list_all_iff)
  then have "length (names_for (series_key_at st) (series_entries uds) k) \<le> length uds"
    by (rule series_names_le_users)
  then show ?thesis by (simp only: full_partial_names)
qed

lemma model_dump_buckets:
  "set (movies_watched_by_all (model_dump st r)) = (\<lambda>a. movie_objs st ! a) ` set (movies_watched_by_all r)"
  "set (movies_watched_by_some (model_dump st r)) = (\<lambda>a. movie_objs st ! a) ` set (movies_watched_by_some r)"
  "set (series_fully_watched_by_all (model_dump st r)) = (\<lambda>a. series_objs st ! a) ` set (series_fully_watched_by_all r)"
  "set (series_fully_watched_by_some (model_dump st r)) = (\<lambda>a. series_objs st ! a) ` set (series_fully_watched_by_some r)"
  "set (series_partially_watched_by_all (model_dump st r)) = (\<lambda>a. series_objs st ! a) ` set (series_partially_watched_by_all r)"
  "set (series_partially_watched_by_some (model_dump st r)) = (\<lambda>a. series_objs st ! a) ` set (series_partially_watched_by_some r)"
  by (simp_all add: model_dump_def)

lemma movie_all_count:
  assumes v: "valid_refs st uds"
    and a: "a \<in> set (filed (movie_data st uds) (\<lambda>names. length names = length uds) (movie_watchers st uds))"
  shows "length (MovieInfo.watched_by_users (movie_objs (final_store st uds) ! a)) = length uds"
  using movie_bucket_entry [OF v a] by auto

lemma movie_some_count:
  assumes v: "valid_refs st uds" and o: "one_entry_per_key st uds"
    and a: "a \<in> set (filed (movie_data st uds) (\<lambda>names. length names \<noteq> length uds) (movie_watchers st uds))"
  shows "1 \<le> length (MovieInfo.watched_by_users (movie_objs (final_store st uds) ! a)) \<and>
    length (MovieInfo.watched_by_users (movie_objs (final_store st uds) ! a)) \<le> length uds - 1"
proof -
  let ?es = "movie_entries uds" and ?key = "movie_key_at st"
  from movie_bucket_entry [OF v a] obtain k where k: "k \<in> key_set ?key ?es"
    and ne: "length (names_for ?key ?es k) \<noteq> length uds"
    and w: "MovieInfo.watched_by_users (movie_objs (final_store st uds) ! a) = names_for ?key ?es k"
    by auto
  from k have "names_for ?key ?es k \<noteq> []" by (rule names_for_nonempty)
  then have "1 \<le> length (names_for ?key ?es k)" by (simp add: Suc_le_eq)
  moreover have "length (names_for ?key ?es k) \<le> length uds" using o by (rule movie_count_bound)
  ultimately show ?thesis using ne w by simp
qed

lemma partial_all_count:
  assumes v: "valid_refs st uds"
    and a: "a \<in> set (filed (series_data st uds) (\<lambda>names. length names = length uds) (series_watchers_partial st uds))"
  shows "length (SeriesInfo.watched_by_users (series_objs (final_store st uds) ! a)) = length uds"
  using partial_bucket_entry [OF v a] by auto

lemma partial_some_count:
  assumes v: "valid_refs st uds" and o: "one_entry_per_key st uds"
    and a: "a \<in> set (filed (series_data st uds) (\<lambda>names. length names \<noteq> length uds) (series_watchers_partial st uds))"
  shows "1 \<le> length (SeriesInfo.watched_by_users (series_objs (final_store st uds) ! a)) \<and>
    length (SeriesInfo.watched_by_users (series_objs (final_store st uds) ! a)) \<le> length uds - 1"
proof -
  let ?ep = "partially_entries st uds" and ?key = "series_key_at st"
  from partial_bucket_entry [OF v a] obtain k where k: "k \<in> key_set ?key ?ep"
    and ne: "length (names_for ?key ?ep k) \<noteq> length uds"
    and w: "SeriesInfo.watched_by_users (series_objs (final_store st uds) ! a) = names_for ?key ?ep k"
    by auto
  from k have "names_for ?key ?ep k \<noteq> []" by (rule names_for_nonempty)
  then have "1 \<le> length (names_for ?key ?ep k)" by (simp add: Suc_le_eq)
  moreover have "length (names_for ?key ?ep k) \<le> length uds"
    using series_count_bound [OF o, of k] by simp
  ultimately show ?thesis using ne w by simp
qed

lemma full_all_count:
  assumes v: "valid_refs st uds" and o: "one_entry_per_key st uds"
    and a: "a \<in> set (filed (series_data st uds) (\<lambda>names. length names = length uds) (series_watchers_full st uds))"
  shows "length (SeriesInfo.watched_by_users (series_objs (final_store st uds) ! a)) = length uds"
proof -
  let ?ep = "partially_entries st uds" and ?ef = "fully_entries st uds" and ?key = "series_key_at st"
  from full_bucket_entry [OF v a] obtain k where k: "k \<in> key_set ?key ?ef"
    and e: "length (names_for ?key ?ef k) = length uds"
    and w: "SeriesInfo.watched_by_users (series_objs (final_store st uds) ! a) =
       (if k \<in> key_set ?key ?ep then names_for ?key ?ep k else names_for ?key ?ef k)"
    by auto
  from series_count_bound [OF o, of k] e have "names_for ?key ?ep k = []" by simp
  then have "k \<notin> key_set ?key ?ep" using names_for_nonempty by blast
  with w e show ?thesis by simp
qed

lemma full_some_count:
  assumes v: "valid_refs st uds" and o: "one_entry_per_key st uds"
    and a: "a \<in> set (filed (series_data st uds) (\<lambda>names. length names \<noteq> length uds) (series_watchers_full st uds))"
  shows "1 \<le> length (SeriesInfo.watched_by_users (series_objs (final_store st uds) ! a)) \<and>
    length (SeriesInfo.watched_by_users (series_objs (final_store st uds) ! a)) \<le> length uds - 1"
proof -
  let ?ep = "partially_entries st uds" and ?ef = "fully_entries st uds" and ?key = "series_key_at st"
  from full_bucket_entry [OF v a] obtain k where k: "k \<in> key_set ?key ?ef"
    and ne: "length (names_for ?key ?ef k) \<noteq> length uds"
    and w: "SeriesInfo.watched_by_users (series_objs (final_store st uds) ! a) =
       (if k \<in> key_set ?key ?ep then names_for ?key ?ep k else names_for ?key ?ef k)"
    by auto
  from k have "names_for ?key ?ef k \<noteq> []" by (rule names_for_nonempty)
  then have f1: "1 \<le> length (names_for ?key ?ef k)" by (simp add: Suc_le_eq)
  note b = series_count_bound [OF o, of k]
  show ?thesis
  proof (cases "k \<in> key_set ?key ?ep")
    case True
    then have "names_for ?key ?ep k \<noteq> []" by (rule names_for_nonempty)
    then have "1 \<le> length (names_for ?key ?ep k)" by (simp add: Suc_le_eq)
    with True w f1 b show ?thesis by simp
  next
    case False
    with w f1 b ne show ?thesis by simp
  qed
qed

text \<open>
  C1, amended. For every list of user watch records (whose addresses are addresses of
  the store) in which no user's record holds two movies, or two series, with the same
  title/year key, \<open>_generate_report\<close> returns, and in the report it returns every
  item of a "watched by all" bucket has a watcher list whose length is the number of
  users, and every item of a "watched by some" bucket has a watcher list whose length is
  at least 1 and at most the number of users minus 1.
\<close>

theorem bucket_watcher_counts:
  assumes v: "valid_refs st users_data" and o: "one_entry_per_key st users_data"
  shows "\<exists>report st'. generate_report self users_data st = Inr (report, st') \<and>
     (\<forall>m \<in> set (movies_watched_by_all (model_dump st' report)).
        length (MovieInfo.watched_by_users m) = length users_data) \<and>
     (\<forall>m \<in> set (movies_watched_by_some (model_dump st' report)).
        1 \<le> length (MovieInfo.watched_by_users m) \<and>
        length (MovieInfo.watched_by_users m) \<le> length users_data - 1) \<and>
     (\<forall>s \<in> set (series_fully_watched_by_all (model_dump st' report)).
        length (SeriesInfo.watched_by_users s) = length users_data) \<and>
     (\<forall>s \<in> set (series_fully_watched_by_some (model_dump st' report)).
        1 \<le> length (SeriesInfo.watched_by_users s) \<and>
        length (SeriesInfo.watched_by_users s) \<le> length users_data - 1) \<and>
     (\<forall>s \<in> set (series_partially_watched_by_all (model_dump st' report)).
        length (SeriesInfo.watched_by_users s) = length users_data) \<and>
     (\<forall>s \<in> set (series_partially_watched_by_some (model_dump st' report)).
        1 \<le> length (SeriesInfo.watched_by_users s) \<and>
        length (SeriesInfo.watched_by_users s) \<le> length users_data - 1)"
proof (cases "users_data = []")
  case True
  then show ?thesis by (simp add: generate_report_empty model_dump_def Report_default_def)
next
  case False
  show ?thesis
    unfolding generate_report_result [OF False]
    using movie_all_count [OF v] movie_some_count [OF v o] full_all_count [OF v o]
      full_some_count [OF v o] partial_all_count [OF v] partial_some_count [OF v o]
    by (simp add: model_dump_buckets)
qed

theorem bucket_watcher_counts_witness:
  "valid_refs two_users_store two_users \<and>
   one_entry_per_key two_users_store two_users \<and>
   map_sum id (\<lambda>(report, st').
       (map MovieInfo.watched_by_users (movies_watched_by_all (model_dump st' report)),
        map MovieInfo.watched_by_users (movies_watched_by_some (model_dump st' report)),
        map SeriesInfo.watched_by_users (series_partially_watched_by_some (model_dump st' report))))
     (generate_report example_service two_users two_users_store)
   = Inr ([[''alice'', ''bob'']], [[''bob'']], [[''bob'']]) \<and>
   length two_users = 2"
proof -
  have v: "valid_refs two_users_store two_users"
    by (simp add: example_defs eval_defs)
  have o: "one_entry_per_key two_users_store two_users"
    by (simp add: example_defs eval_defs)
  have r: "map_sum id (\<lambda>(report, st').
       (map MovieInfo.watched_by_users (movies_watched_by_all (model_dump st' report)),
        map MovieInfo.watched_by_users (movies_watched_by_some (model_dump st' report)),
        map SeriesInfo.watched_by_users (series_partially_watched_by_some (model_dump st' report))))
     (generate_report example_service two_users two_users_store)
   = Inr ([[''alice'', ''bob'']], [[''bob'']], [[''bob'']]) \<and> length two_users = 2"
    by (simp add: example_defs eval_defs)
  from bucket_watcher_counts [OF v o, of example_service] v o r show ?thesis by simp
qed

text \<open>
  C1, as stated, fails: the loops count entries, not users. A user whose list holds two
  movies with the same title and year is appended twice to the watcher list of that key;
  with this single user the list has length 2, the item lands in "watched by some", and
  2 is not at most the number of users minus 1.
\<close>

theorem duplicate_entry_counterexample:
  "length duplicate_users = 1 \<and>
   map_sum id (\<lambda>(report, st'). map MovieInfo.watched_by_users
       (movies_watched_by_some (model_dump st' report)))
     (generate_report example_service duplicate_users duplicate_store)
   = Inr [[''alice'', ''alice'']] \<and>
   \<not> length [''alice'', ''alice''] \<le> length duplicate_users - 1"
  by (simp add: example_defs eval_defs)

text \<open>
  C2 fails on the code. Both series loops take the object to file from the one dict
  \<open>series_data\<close>, so for a key with fully-watching and partially-watching users the
  "fully" bucket and the "partially" bucket hold the same object, and the assignment of
  the partial watchers replaces the watcher list the first loop attached. With alice
  having watched all of a series and bob a part of it: both buckets hold the object at
  address 1 (bob's entry, not fully watched), and its watcher list is bob alone, though
  the fully-watchers accumulator of the key is alice.
\<close>

theorem shared_series_object_overwritten:
  "map_sum id (\<lambda>(report, st').
       (series_fully_watched_by_some report,
        series_partially_watched_by_some report,
        map SeriesInfo.watched_by_users (series_fully_watched_by_some (model_dump st' report)),
        map SeriesInfo.watched_by_users (series_partially_watched_by_some (model_dump st' report)),
        map is_fully_watched (series_fully_watched_by_some (model_dump st' report))))
     (generate_report example_service two_users two_users_store)
   = Inr ([1], [1], [[''bob'']], [[''bob'']], [False]) \<and>
   watchers_of (series_watchers_full two_users_store two_users)
     (series_key (example_series ''Dark'' ''/tv/Dark'' 26)) = [''alice''] \<and>
   watchers_of (series_watchers_partial two_users_store two_users)
     (series_key (example_series ''Dark'' ''/tv/Dark'' 26)) = [''bob'']"
  by (simp add: example_defs eval_defs)


lemma last_for_append:
  "last_for key_of (es @ fs) k =
     (if filter (\<lambda>(n, a). key_of a = k) fs = [] then last_for key_of es k else last_for key_of fs k)"
  by (simp add: last_for_def)

lemma key_set_append: "key_set key_of (es @ fs) = key_set key_of es \<union> key_set key_of fs"
  by (auto simp: key_set_def)

lemma key_set_user: "key_set key_of (map (\<lambda>a. (n, a)) as) = key_of ` set as"
  by (auto simp: key_set_def)

lemma filter_user: "filter (\<lambda>(n, a). key_of a = k) (map (\<lambda>a. (n, a)) as) = map (\<lambda>a. (n, a)) (filter (\<lambda>a. key_of a = k) as)"
  by (induction as) auto

lemma last_for_user:
  assumes "k \<in> key_of ` set as"
  shows "last_for key_of (map (\<lambda>a. (n, a)) as) k = last (filter (\<lambda>a. key_of a = k) as)"
proof -
  from assms have "filter (\<lambda>a. key_of a = k) as \<noteq> []" by (auto simp: filter_empty_conv)
  then show ?thesis by (simp add: last_for_def filter_user last_map)
qed

lemma last_for_last_user:
  fixes items :: "(addr, addr) UserWatchData \<Rightarrow> addr list"
  defines "entries \<equiv> \<lambda>uds. concat (map (\<lambda>ud. map (\<lambda>a. (username ud, a)) (items ud)) uds)"
  assumes "k \<in> key_set key_of (entries uds)"
  shows "\<exists>us1 u us2. uds = us1 @ u # us2 \<and>
           last_for key_of (entries uds) k = last (filter (\<lambda>a. key_of a = k) (items u)) \<and>
           last_for key_of (entries uds) k \<in> set (items u) \<and>
           (\<forall>u' \<in> set us2. \<forall>b \<in> set (items u'). key_of b \<noteq> k)"
  using assms(2)
proof (induction uds rule: rev_induct)
  case Nil
  then show ?case by (simp add: entries_def key_set_def)
next
  case (snoc u uds)
  have e: "entries (uds @ [u]) = entries uds @ map (\<lambda>a. (username u, a)) (items u)"
    by (simp add: entries_def)
  show ?case
  proof (cases "k \<in> key_of ` set (items u)")
    case True
    then have f: "filter (\<lambda>a. key_of a = k) (items u) \<noteq> []" by (auto simp: filter_empty_conv)
    then have l: "last_for key_of (entries (uds @ [u])) k = last (filter (\<lambda>a. key_of a = k) (items u))"
      by (simp add: e last_for_append filter_user last_for_user [OF True])
    from f have "last (filter (\<lambda>a. key_of a = k) (items u)) \<in> set (filter (\<lambda>a. key_of a = k) (items u))"
      by (rule last_in_set)
    then have "last (filter (\<lambda>a. key_of a = k) (items u)) \<in> set (items u)" by simp
    with l have "uds @ [u] = uds @ u # [] \<and>
           last_for key_of (entries (uds @ [u])) k = last (filter (\<lambda>a. key_of a = k) (items u)) \<and>
           last_for key_of (entries (uds @ [u])) k \<in> set (items u) \<and>
           (\<forall>u' \<in> set []. \<forall>b \<in> set (items u'). key_of b \<noteq> k)" by simp
    then show ?thesis by blast
  next
    case False
    then have f: "filter (\<lambda>a. key_of a = k) (items u) = []" by (auto simp: filter_empty_conv)
    then have l: "last_for key_of (entries (uds @ [u])) k = last_for key_of (entries uds) k"
      by (simp add: e last_for_append filter_user)
    from snoc.prems False have "k \<in> key_set key_of (entries uds)"
      by (simp add: e key_set_append key_set_user)
    from snoc.IH [OF this] obtain us1 u0 us2 where u: "uds = us1 @ u0 # us2"
      and a: "last_for key_of (entries uds) k = last (filter (\<lambda>a. key_of a = k) (items u0))"
      and b: "last_for key_of (entries uds) k \<in> set (items u0)"
      and c: "\<forall>u' \<in> set us2. \<forall>b \<in> set (items u'). key_of b \<noteq> k" by blast
    from c False have "\<forall>u' \<in> set (us2 @ [u]). \<forall>b \<in> set (items u'). key_of b \<noteq> k" by auto
    with u a b l have "uds @ [u] = us1 @ u0 # (us2 @ [u]) \<and>
           last_for key_of (entries (uds @ [u])) k = last (filter (\<lambda>a. key_of a = k) (items u0)) \<and>
           last_for key_of (entries (uds @ [u])) k \<in> set (items u0) \<and>
           (\<forall>u' \<in> set (us2 @ [u]). \<forall>b \<in> set (items u'). key_of b \<noteq> k)" by simp
    then show ?thesis by blast
  qed
qed

lemma movie_last_user:
  assumes "k \<in> key_set key_of (movie_entries uds)"
  shows "\<exists>us1 u us2. uds = us1 @ u # us2 \<and>
           last_for key_of (movie_entries uds) k = last (filter (\<lambda>a. key_of a = k) (watched_movies u)) \<and>
           last_for key_of (movie_entries uds) k \<in> set (watched_movies u) \<and>
           (\<forall>u' \<in> set us2. \<forall>b \<in> set (watched_movies u'). key_of b \<noteq> k)"
  using last_for_last_user [of k key_of watched_movies uds] assms
  unfolding movie_entries_def by simp

lemma series_last_user:
  assumes "k \<in> key_set key_of (series_entries uds)"
  shows "\<exists>us1 u us2. uds = us1 @ u # us2 \<and>
           last_for key_of (series_entries uds) k = last (filter (\<lambda>a. key_of a = k) (watched_series u)) \<and>
           last_for key_of (series_entries uds) k \<in> set (watched_series u) \<and>
           (\<forall>u' \<in> set us2. \<forall>b \<in> set (watched_series u'). key_of b \<noteq> k)"
  using last_for_last_user [of k key_of watched_series uds] assms
  unfolding series_entries_def by simp

lemma series_key_set_split:
  "key_set key_of (series_entries uds)
     = key_set key_of (fully_entries st uds) \<union> key_set key_of (partially_entries st uds)"
  by (auto simp: key_set_def fully_entries_def partially_entries_def)

lemma movie_buckets_members:
  "a \<in> set (filed (movie_data st uds) P (movie_watchers st uds)) \<union>
       set (filed (movie_data st uds) (\<lambda>names. \<not> P names) (movie_watchers st uds)) \<longleftrightarrow>
   (\<exists>k \<in> key_set (movie_key_at st) (movie_entries uds).
      a = last_for (movie_key_at st) (movie_entries uds) k)"
  unfolding movie_data_eq movie_watchers_eq Un_iff
  using filed_member_data [of "movie_entries uds" "movie_entries uds" a "movie_key_at st" P]
    filed_member_data [of "movie_entries uds" "movie_entries uds" a "movie_key_at st" "\<lambda>names. \<not> P names"]
  by auto

lemma series_buckets_members:
  "a \<in> set (filed (series_data st uds) P (series_watchers_full st uds)) \<union>
       set (filed (series_data st uds) (\<lambda>names. \<not> P names) (series_watchers_full st uds)) \<union>
       set (filed (series_data st uds) P (series_watchers_partial st uds)) \<union>
       set (filed (series_data st uds) (\<lambda>names. \<not> P names) (series_watchers_partial st uds)) \<longleftrightarrow>
   (\<exists>k \<in> key_set (series_key_at st) (series_entries uds).
      a = last_for (series_key_at st) (series_entries uds) k)"
  unfolding series_data_eq series_watchers_full_eq series_watchers_partial_eq Un_iff
    series_key_set_split [of "series_key_at st" uds st]
  using filed_member_data [OF fully_entries_subset [of st uds], of a "series_key_at st" P]
    filed_member_data [OF fully_entries_subset [of st uds], of a "series_key_at st" "\<lambda>names. \<not> P names"]
    filed_member_data [OF partially_entries_subset [of st uds], of a "series_key_at st" P]
    filed_member_data [OF partially_entries_subset [of st uds], of a "series_key_at st" "\<lambda>names. \<not> P names"]
  by auto

lemma last_iff:
  assumes "a \<in> snd ` set es"
  shows "(\<exists>k \<in> key_set key_of es. a = last_for key_of es k) \<longleftrightarrow> a = last_for key_of es (key_of a)"
proof
  assume "\<exists>k \<in> key_set key_of es. a = last_for key_of es k"
  then obtain k where k: "k \<in> key_set key_of es" and a: "a = last_for key_of es k" by blast
  from last_for_in(1) [OF k] a have "key_of a = k" by simp
  with a show "a = last_for key_of es (key_of a)" by simp
next
  assume a: "a = last_for key_of es (key_of a)"
  from assms have "key_of a \<in> key_set key_of es" by (force simp: key_set_def)
  with a show "\<exists>k \<in> key_set key_of es. a = last_for key_of es k" by blast
qed

lemma movie_representative_iff:
  assumes "a \<in> snd ` set (movie_entries uds)"
  shows "a \<in> set (filed (movie_data st uds) (\<lambda>names. length names = n) (movie_watchers st uds)) \<union>
       set (filed (movie_data st uds) (\<lambda>names. length names \<noteq> n) (movie_watchers st uds)) \<longleftrightarrow>
     a = last_for (movie_key_at st) (movie_entries uds) (movie_key_at st a)"
  using movie_buckets_members [of a st uds "\<lambda>names. length names = n"] last_iff [OF assms, of "movie_key_at st"]
  by simp

lemma series_representative_iff:
  assumes "a \<in> snd ` set (series_entries uds)"
  shows "a \<in> set (filed (series_data st uds) (\<lambda>names. length names = n) (series_watchers_full st uds)) \<union>
       set (filed (series_data st uds) (\<lambda>names. length names \<noteq> n) (series_watchers_full st uds)) \<union>
       set (filed (series_data st uds) (\<lambda>names. length names = n) (series_watchers_partial st uds)) \<union>
       set (filed (series_data st uds) (\<lambda>names. length names \<noteq> n) (series_watchers_partial st uds)) \<longleftrightarrow>
     a = last_for (series_key_at st) (series_entries uds) (series_key_at st a)"
  using series_buckets_members [of a st uds "\<lambda>names. length names = n"] last_iff [OF assms, of "series_key_at st"]
  by simp

lemma movie_representative_user:
  assumes "a \<in> set (filed (movie_data st uds) (\<lambda>names. length names = n) (movie_watchers st uds)) \<union>
       set (filed (movie_data st uds) (\<lambda>names. length names \<noteq> n) (movie_watchers st uds))"
  shows "\<exists>us1 u us2. uds = us1 @ u # us2 \<and> a \<in> set (watched_movies u) \<and>
       a = last (filter (\<lambda>b. movie_key_at st b = movie_key_at st a) (watched_movies u)) \<and>
       (\<forall>u' \<in> set us2. \<forall>b \<in> set (watched_movies u'). movie_key_at st b \<noteq> movie_key_at st a)"
proof -
  from assms obtain k where k: "k \<in> key_set (movie_key_at st) (movie_entries uds)"
    and a: "a = last_for (movie_key_at st) (movie_entries uds) k"
    using movie_buckets_members [of a st uds "\<lambda>names. length names = n"] by auto
  from last_for_in(1) [OF k] a have ka: "movie_key_at st a = k" by simp
  from movie_last_user [OF k] show ?thesis unfolding a [symmetric] ka by blast
qed

lemma series_representative_user:
  assumes "a \<in> set (filed (series_data st uds) (\<lambda>names. length names = n) (series_watchers_full st uds)) \<union>
       set (filed (series_data st uds) (\<lambda>names. length names \<noteq> n) (series_watchers_full st uds)) \<union>
       set (filed (series_data st uds) (\<lambda>names. length names = n) (series_watchers_partial st uds)) \<union>
       set (filed (series_data st uds) (\<lambda>names. length names \<noteq> n) (series_watchers_partial st uds))"
  shows "\<exists>us1 u us2. uds = us1 @ u # us2 \<and> a \<in> set (watched_series u) \<and>
       a = last (filter (\<lambda>b. series_key_at st b = series_key_at st a) (watched_series u)) \<and>
       (\<forall>u' \<in> set us2. \<forall>b \<in> set (watched_series u'). series_key_at st b \<noteq> series_key_at st a)"
proof -
  from assms obtain k where k: "k \<in> key_set (series_key_at st) (series_entries uds)"
    and a: "a = last_for (series_key_at st) (series_entries uds) k"
    using series_buckets_members [of a st uds "\<lambda>names. length names = n"] by auto
  from last_for_in(1) [OF k] a have ka: "series_key_at st a = k" by simp
  from series_last_user [OF k] show ?thesis unfolding a [symmetric] ka by blast
qed

text \<open>
  C10. \<open>_generate_report\<close> returns, and in its report the object filed for a title/year
  key is the last entry with that key in the iteration order of the loops: an address of
  a user's list is in a bucket if and only if it is the last entry of its key; it comes
  from the last user of the list who has the key (the last such entry of that user), no
  later user having an entry with it; and the fields of the filed object other than
  \<open>watched_by_users\<close> are those of that entry. So the entries of earlier users for the
  key, with their fields, are in no bucket.
\<close>

theorem bucket_representative_is_last:
  "\<exists>report st'. generate_report self users_data st = Inr (report, st') \<and>
     (\<forall>a \<in> snd ` set (movie_entries users_data).
        a \<in> set (movies_watched_by_all report) \<union> set (movies_watched_by_some report) \<longleftrightarrow>
        a = last_for (movie_key_at st) (movie_entries users_data) (movie_key_at st a)) \<and>
     (\<forall>a \<in> set (movies_watched_by_all report) \<union> set (movies_watched_by_some report).
        (\<exists>us1 u us2. users_data = us1 @ u # us2 \<and> a \<in> set (watched_movies u) \<and>
           a = last (filter (\<lambda>b. movie_key_at st b = movie_key_at st a) (watched_movies u)) \<and>
           (\<forall>u' \<in> set us2. \<forall>b \<in> set (watched_movies u').
              movie_key_at st b \<noteq> movie_key_at st a)) \<and>
        (movie_objs st' ! a)\<lparr>MovieInfo.watched_by_users := []\<rparr>
          = (movie_objs st ! a)\<lparr>MovieInfo.watched_by_users := []\<rparr>) \<and>
     (\<forall>a \<in> snd ` set (series_entries users_data).
        a \<in> set (series_fully_watched_by_all report) \<union> set (series_fully_watched_by_some report) \<union>
            set (series_partially_watched_by_all report) \<union>
            set (series_partially_watched_by_some report) \<longleftrightarrow>
        a = last_for (series_key_at st) (series_entries users_data) (series_key_at st a)) \<and>
     (\<forall>a \<in> set (series_fully_watched_by_all report) \<union> set (series_fully_watched_by_some report) \<union>
            set (series_partially_watched_by_all report) \<union>
            set (series_partially_watched_by_some report).
        (\<exists>us1 u us2. users_data = us1 @ u # us2 \<and> a \<in> set (watched_series u) \<and>
           a = last (filter (\<lambda>b. series_key_at st b = series_key_at st a) (watched_series u)) \<and>
           (\<forall>u' \<in> set us2. \<forall>b \<in> set (watched_series u').
              series_key_at st b \<noteq> series_key_at st a)) \<and>
        (series_objs st' ! a)\<lparr>SeriesInfo.watched_by_users := []\<rparr>
          = (series_objs st ! a)\<lparr>SeriesInfo.watched_by_users := []\<rparr>)"
proof (cases "users_data = []")
  case True
  then show ?thesis
    by (simp add: generate_report_empty Report_default_def movie_entries_def series_entries_def)
next
  case False
  have "(\<forall>a \<in> snd ` set (movie_entries users_data).
        a \<in> set (filed (movie_data st users_data) (\<lambda>names. length names = length users_data) (movie_watchers st users_data)) \<union>
            set (filed (movie_data st users_data) (\<lambda>names. length names \<noteq> length users_data) (movie_watchers st users_data)) \<longleftrightarrow>
        a = last_for (movie_key_at st) (movie_entries users_data) (movie_key_at st a))"
    using movie_representative_iff by blast
  moreover have "(\<forall>a \<in> set (filed (movie_data st users_data) (\<lambda>names. length names = length users_data) (movie_watchers st users_data)) \<union>
            set (filed (movie_data st users_data) (\<lambda>names. length names \<noteq> length users_data) (movie_watchers st users_data)).
        (\<exists>us1 u us2. users_data = us1 @ u # us2 \<and> a \<in> set (watched_movies u) \<and>
           a = last (filter (\<lambda>b. movie_key_at st b = movie_key_at st a) (watched_movies u)) \<and>
           (\<forall>u' \<in> set us2. \<forall>b \<in> set (watched_movies u').
              movie_key_at st b \<noteq> movie_key_at st a)) \<and>
        (movie_objs (final_store st users_data) ! a)\<lparr>MovieInfo.watched_by_users := []\<rparr>
          = (movie_objs st ! a)\<lparr>MovieInfo.watched_by_users := []\<rparr>)"
    using movie_representative_user final_store_movie_fields by blast
  moreover have "(\<forall>a \<in> snd ` set (series_entries users_data).
        a \<in> set (filed (series_data st users_data) (\<lambda>names. length names = length users_data) (series_watchers_full st users_data)) \<union>
            set (filed (series_data st users_data) (\<lambda>names. length names \<noteq> length users_data) (series_watchers_full st users_data)) \<union>
            set (filed (series_data st users_data) (\<lambda>names. length names = length users_data) (series_watchers_partial st users_data)) \<union>
            set (filed (series_data st users_data) (\<lambda>names. length names \<noteq> length users_data) (series_watchers_partial st users_data)) \<longleftrightarrow>
        a = last_for (series_key_at st) (series_entries users_data) (series_key_at st a))"
    using series_representative_iff by blast
  moreover have "(\<forall>a \<in> set (filed (series_data st users_data) (\<lambda>names. length names = length users_data) (series_watchers_full st users_data)) \<union>
            set (filed (series_data st users_data) (\<lambda>names. length names \<noteq> length users_data) (series_watchers_full st users_data)) \<union>
            set (filed (series_data st users_data) (\<lambda>names. length names = length users_data) (series_watchers_partial st users_data)) \<union>
            set (filed (series_data st users_data) (\<lambda>names. length names \<noteq> length users_data) (series_watchers_partial st users_data)).
        (\<exists>us1 u us2. users_data = us1 @ u # us2 \<and> a \<in> set (watched_series u) \<and>
           a = last (filter (\<lambda>b. series_key_at st b = series_key_at st a) (watched_series u)) \<and>
           (\<forall>u' \<in> set us2. \<forall>b \<in> set (watched_series u').
              series_key_at st b \<noteq> series_key_at st a)) \<and>
        (series_objs (final_store st users_data) ! a)\<lparr>SeriesInfo.watched_by_users := []\<rparr>
          = (series_objs st ! a)\<lparr>SeriesInfo.watched_by_users := []\<rparr>)"
    using series_representative_user final_store_series_fields by blast
  ultimately show ?thesis
    unfolding generate_report_result [OF False] by simp
qed

theorem bucket_representative_is_last_witness:
  "\<exists>report st'. generate_report example_service two_users two_users_store = Inr (report, st') \<and>
     {0, 1} \<subseteq> snd ` set (movie_entries two_users) \<and>
     movie_key_at two_users_store 0 = movie_key_at two_users_store 1 \<and>
     1 \<in> set (movies_watched_by_all report) \<union> set (movies_watched_by_some report) \<and>
     0 \<notin> set (movies_watched_by_all report) \<union> set (movies_watched_by_some report)"
proof -
  from bucket_representative_is_last [of example_service two_users two_users_store]
  obtain report st' where g: "generate_report example_service two_users two_users_store = Inr (report, st')"
    and m: "\<forall>a \<in> snd ` set (movie_entries two_users).
        a \<in> set (movies_watched_by_all report) \<union> set (movies_watched_by_some report) \<longleftrightarrow>
        a = last_for (movie_key_at two_users_store) (movie_entries two_users) (movie_key_at two_users_store a)"
    by (elim exE conjE)
  have e0: "0 \<in> snd ` set (movie_entries two_users)" and e1: "1 \<in> snd ` set (movie_entries two_users)"
    by (simp_all add: example_defs eval_defs)
  have k: "movie_key_at two_users_store 0 = movie_key_at two_users_store 1"
    by (simp add: example_defs eval_defs)
  have l: "last_for (movie_key_at two_users_store) (movie_entries two_users) (movie_key_at two_users_store 1) = 1"
    by (simp add: example_defs eval_defs)
  from bspec [OF m e1] l
  have 1: "1 \<in> set (movies_watched_by_all report) \<union> set (movies_watched_by_some report)"
    by (simp only: simp_thms)
  from bspec [OF m e0] l
  have 0: "0 \<notin> set (movies_watched_by_all report) \<union> set (movies_watched_by_some report)"
    by (simp only: k zero_neq_one simp_thms)
  have e: "{0, 1} \<subseteq> snd ` set (movie_entries two_users)" using e0 e1 by simp
  show ?thesis
    by (rule exI [of _ report], rule exI [of _ st']) (simp only: g e k 1 0 simp_thms)
qed

lemma series_key_inj:
  "series_key a = series_key b \<longleftrightarrow> SeriesInfo.title a = SeriesInfo.title b \<and> SeriesInfo.year a = SeriesInfo.year b"
proof
  assume "series_key a = series_key b"
  then have "SeriesInfo.title a @ CHR ''_'' # str_optional_int (SeriesInfo.year a)
      = SeriesInfo.title b @ CHR ''_'' # str_optional_int (SeriesInfo.year b)"
    by (simp add: series_key_def)
  then have "SeriesInfo.title a = SeriesInfo.title b \<and>
      str_optional_int (SeriesInfo.year a) = str_optional_int (SeriesInfo.year b)"
    by (rule split_at_last_sep) (rule str_optional_int_no_underscore)+
  then show "SeriesInfo.title a = SeriesInfo.title b \<and> SeriesInfo.year a = SeriesInfo.year b"
    using str_optional_int_inj by blast
next
  assume "SeriesInfo.title a = SeriesInfo.title b \<and> SeriesInfo.year a = SeriesInfo.year b"
  then show "series_key a = series_key b" by (simp add: series_key_def)
qed

lemma movie_watchers_of:
  "watchers_of (movie_watchers st uds) (movie_key m) =
     map fst (filter (\<lambda>(n, a). MovieInfo.title (movie_objs st ! a) = MovieInfo.title m \<and>
                               MovieInfo.year (movie_objs st ! a) = MovieInfo.year m) (movie_entries uds))"
  by (simp add: movie_watchers_eq watchers_of_add_watchers movie_key_at_def movie_key_inj)

lemma series_watchers_full_of:
  "watchers_of (series_watchers_full st uds) (series_key s) =
     map fst (filter (\<lambda>(n, a). is_fully_watched (series_objs st ! a) \<and>
                               SeriesInfo.title (series_objs st ! a) = SeriesInfo.title s \<and>
                               SeriesInfo.year (series_objs st ! a) = SeriesInfo.year s) (series_entries uds))"
  by (simp add: series_watchers_full_eq watchers_of_add_watchers series_key_at_def series_key_inj
      fully_entries_def case_prod_unfold conj_commute)

lemma series_watchers_partial_of:
  "watchers_of (series_watchers_partial st uds) (series_key s) =
     map fst (filter (\<lambda>(n, a). \<not> is_fully_watched (series_objs st ! a) \<and>
                               SeriesInfo.title (series_objs st ! a) = SeriesInfo.title s \<and>
                               SeriesInfo.year (series_objs st ! a) = SeriesInfo.year s) (series_entries uds))"
  by (simp add: series_watchers_partial_eq watchers_of_add_watchers series_key_at_def series_key_inj
      partially_entries_def case_prod_unfold conj_commute)

text \<open>
  C6. Two items have the same grouping key exactly when their title and their year
  coincide, whatever their identifiers; an item without a year has the word None as the
  year component of its key, so two items with the same title and no year have the same
  key. The watcher list the loops accumulate under the key of an item consists of the
  user names of all entries with that title and year, in iteration order (for series: of
  all such entries of the partition).
\<close>

theorem grouping_by_title_and_year:
  "(movie_key m1 = movie_key m2 \<longleftrightarrow>
      MovieInfo.title m1 = MovieInfo.title m2 \<and> MovieInfo.year m1 = MovieInfo.year m2) \<and>
   (series_key s1 = series_key s2 \<longleftrightarrow>
      SeriesInfo.title s1 = SeriesInfo.title s2 \<and> SeriesInfo.year s1 = SeriesInfo.year s2) \<and>
   (MovieInfo.year m1 = None \<longrightarrow> movie_key m1 = MovieInfo.title m1 @ ''_None'') \<and>
   (SeriesInfo.year s1 = None \<longrightarrow> series_key s1 = SeriesInfo.title s1 @ ''_None'') \<and>
   watchers_of (movie_watchers st users_data) (movie_key m1) =
     map fst (filter (\<lambda>(n, a). MovieInfo.title (movie_objs st ! a) = MovieInfo.title m1 \<and>
                               MovieInfo.year (movie_objs st ! a) = MovieInfo.year m1)
                (movie_entries users_data)) \<and>
   watchers_of (series_watchers_full st users_data) (series_key s1) =
     map fst (filter (\<lambda>(n, a). is_fully_watched (series_objs st ! a) \<and>
                               SeriesInfo.title (series_objs st ! a) = SeriesInfo.title s1 \<and>
                               SeriesInfo.year (series_objs st ! a) = SeriesInfo.year s1)
                (series_entries users_data)) \<and>
   watchers_of (series_watchers_partial st users_data) (series_key s1) =
     map fst (filter (\<lambda>(n, a). \<not> is_fully_watched (series_objs st ! a) \<and>
                               SeriesInfo.title (series_objs st ! a) = SeriesInfo.title s1 \<and>
                               SeriesInfo.year (series_objs st ! a) = SeriesInfo.year s1)
                (series_entries users_data))"
  using movie_key_inj [of m1 m2] series_key_inj [of s1 s2] movie_watchers_of [of st users_data m1]
    series_watchers_full_of [of st users_data s1] series_watchers_partial_of [of st users_data s1]
  by (simp add: movie_key_def series_key_def str_optional_int_def)

theorem grouping_by_title_and_year_witness:
  "MovieInfo.year ((example_movie ''Dune'' ''/a'')\<lparr>MovieInfo.year := None\<rparr>) = None \<and>
   movie_key ((example_movie ''Dune'' ''/a'')\<lparr>MovieInfo.year := None\<rparr>) = ''Dune_None'' \<and>
   movie_key ((example_movie ''Dune'' ''/a'')\<lparr>MovieInfo.year := None\<rparr>)
     = movie_key ((example_movie ''Dune'' ''/b'')\<lparr>MovieInfo.year := None, tmdb_id := Some ''438631''\<rparr>) \<and>
   SeriesInfo.year ((example_series ''Dark'' ''/a'' 1)\<lparr>SeriesInfo.year := None\<rparr>) = None \<and>
   series_key ((example_series ''Dark'' ''/a'' 1)\<lparr>SeriesInfo.year := None\<rparr>) = ''Dark_None''"
  using grouping_by_title_and_year
    [of "(example_movie ''Dune'' ''/a'')\<lparr>MovieInfo.year := None\<rparr>"
        "(example_movie ''Dune'' ''/b'')\<lparr>MovieInfo.year := None, tmdb_id := Some ''438631''\<rparr>"
        "(example_series ''Dark'' ''/a'' 1)\<lparr>SeriesInfo.year := None\<rparr>"
        "(example_series ''Dark'' ''/a'' 1)\<lparr>SeriesInfo.year := None\<rparr>"
        two_users_store two_users]
  by (simp add: example_movie_def example_series_def movie_key_def series_key_def
      str_optional_int_def)

subsection \<open>The loops of \<open>collect_data\<close>\<close>

lemma upt_first: "[n..<Suc (n + k)] = n # [Suc n..<Suc (n + k)]"
  by (rule upt_conv_Cons) simp

lemma collect_movies_eq:
  "collect_movies items radarr_lookup (watched, st) =
     (watched @ [length (movie_objs st) ..< length (movie_objs st) + length items],
      st\<lparr>movie_objs := movie_objs st @ map (\<lambda>m. parse_movie m radarr_lookup) items\<rparr>)"
proof (induction items arbitrary: watched st)
  case Nil
  then show ?case by simp
next
  case (Cons m items)
  show ?case by (simp add: new_movie_def Cons.IH upt_first del: upt_Suc)
qed

lemma series_infos_Nil [simp]: "series_infos [] episodes sonarr_lookup = []"
  by (simp add: series_infos_def)

lemma series_infos_Cons:
  "series_infos (s # items) episodes sonarr_lookup =
     (case parse_series s (episodes (item_Id s)) sonarr_lookup of
        Inr (Some info) \<Rightarrow> [info] | _ \<Rightarrow> []) @ series_infos items episodes sonarr_lookup"
  by (simp add: series_infos_def)

lemma collect_series_eq:
  "collect_series items episodes sonarr_lookup (watched, st) = Inr (watched', st') \<Longrightarrow>
   watched' = watched @ [length (series_objs st) ..<
                          length (series_objs st) + length (series_infos items episodes sonarr_lookup)] \<and>
   st' = st\<lparr>series_objs := series_objs st @ series_infos items episodes sonarr_lookup\<rparr>"
proof (induction items arbitrary: watched st)
  case Nil
  then show ?case by simp
next
  case (Cons s items)
  show ?case
  proof (cases "parse_series s (episodes (item_Id s)) sonarr_lookup")
    case (Inl e)
    with Cons.prems show ?thesis by simp
  next
    case (Inr r)
    show ?thesis
    proof (cases r)
      case None
      with Inr Cons.prems have "collect_series items episodes sonarr_lookup (watched, st) = Inr (watched', st')"
        by simp
      from Cons.IH [OF this] show ?thesis by (simp add: series_infos_Cons Inr None)
    next
      case (Some info)
      with Inr Cons.prems have "collect_series items episodes sonarr_lookup
          (watched @ [length (series_objs st)], st\<lparr>series_objs := series_objs st @ [info]\<rparr>)
          = Inr (watched', st')"
        by (simp add: new_series_def)
      from Cons.IH [OF this] show ?thesis
        by (simp add: series_infos_Cons Inr Some upt_first del: upt_Suc)
    qed
  qed
qed

lemma parse_series_Some:
  assumes "parse_series s eps sonarr_lookup = Inr (Some info)"
  shows "\<exists>fully total_count. is_series_fully_watched eps = Inr (fully, watched_episodes info, total_count) \<and>
     watched_episodes info \<noteq> 0 \<and> SeriesInfo.jellyfin_id info = item_Id s \<and>
     is_fully_watched info = fully \<and> total_episodes info = total_count \<and>
     SeriesInfo.watched_by_users info = []"
  using assms
  by (auto simp: parse_series_def Let_def split: sum.splits prod.splits if_splits)

lemma parse_series_None_iff:
  "parse_series s eps sonarr_lookup = Inr None \<longleftrightarrow>
     (\<exists>fully total_count. is_series_fully_watched eps = Inr (fully, 0, total_count))"
  by (auto simp: parse_series_def Let_def split: sum.splits prod.splits if_splits)

lemma series_infos_member:
  assumes "info \<in> set (series_infos items episodes sonarr_lookup)"
  shows "\<exists>s \<in> set items. parse_series s (episodes (item_Id s)) sonarr_lookup = Inr (Some info)"
  using assms
  by (auto simp: series_infos_def split: sum.splits option.splits)

lemma series_infos_nonzero:
  assumes "info \<in> set (series_infos items (\<lambda>sid. episodes_of served sid uid) sonarr_lookup)"
  shows "watched_nonzero served uid info"
proof -
  from series_infos_member [OF assms] obtain s
    where "parse_series s (episodes_of served (item_Id s) uid) sonarr_lookup = Inr (Some info)"
    by blast
  from parse_series_Some [OF this] show ?thesis
    by (auto simp: watched_nonzero_def)
qed

lemma collected_ok_extend:
  assumes "collected_ok served st uds"
  shows "collected_ok served
     (st\<lparr>movie_objs := movie_objs st @ ms, series_objs := series_objs st @ ss\<rparr>) uds"
  using assms
  by (auto simp: collected_ok_def valid_refs_def list_all_iff nth_append intro: trans_less_add1)

lemma collected_ok_snoc:
  assumes ok: "collected_ok served st uds"
    and ss: "\<forall>info \<in> set ss. watched_nonzero served uid info"
  shows "collected_ok served
     (st\<lparr>movie_objs := movie_objs st @ ms, series_objs := series_objs st @ ss\<rparr>)
     (uds @ [\<lparr>UserWatchData.user_id = uid, username = name,
              watched_movies = [length (movie_objs st) ..< length (movie_objs st) + length ms],
              watched_series = [length (series_objs st) ..< length (series_objs st) + length ss]\<rparr>])"
proof -
  let ?st = "st\<lparr>movie_objs := movie_objs st @ ms, series_objs := series_objs st @ ss\<rparr>"
  have old: "collected_ok served ?st uds" using ok by (rule collected_ok_extend)
  have new: "\<forall>a \<in> set [length (series_objs st) ..< length (series_objs st) + length ss].
      watched_nonzero served uid (series_objs ?st ! a)"
  proof
    fix a assume "a \<in> set [length (series_objs st) ..< length (series_objs st) + length ss]"
    then have a: "length (series_objs st) \<le> a" "a - length (series_objs st) < length ss" by auto
    then have "series_objs ?st ! a = ss ! (a - length (series_objs st))"
      by (simp add: nth_append)
    moreover from a have "ss ! (a - length (series_objs st)) \<in> set ss" by simp
    ultimately show "watched_nonzero served uid (series_objs ?st ! a)" using ss by simp
  qed
  show ?thesis
    using old new by (simp add: collected_ok_def valid_refs_def list_all_iff)
qed

lemma collect_users_ok:
  "collect_users us served radarr_lookup sonarr_lookup (uds, st) = Inr (uds', st') \<Longrightarrow>
   collected_ok served st uds \<Longrightarrow> collected_ok served st' uds'"
proof (induction us arbitrary: uds st)
  case Nil
  then show ?case by simp
next
  case (Cons u us)
  let ?uid = "user_Id u"
  let ?ms = "map (\<lambda>m. parse_movie m radarr_lookup) (watched_movies_of served ?uid)"
  let ?st1 = "st\<lparr>movie_objs := movie_objs st @ ?ms\<rparr>"
  let ?movies = "[length (movie_objs st) ..< length (movie_objs st) + length (watched_movies_of served ?uid)]"
  let ?eps = "\<lambda>series_id. episodes_of served series_id ?uid"
  have cm: "collect_movies (watched_movies_of served ?uid) radarr_lookup ([], st) = (?movies, ?st1)"
    by (simp add: collect_movies_eq)
  show ?case
  proof (cases "collect_series (watched_series_of served ?uid) ?eps sonarr_lookup ([], ?st1)")
    case (Inl e)
    with Cons.prems(1) cm show ?thesis by simp
  next
    case (Inr r)
    obtain series st2 where r: "r = (series, st2)" by (cases r)
    let ?ss = "series_infos (watched_series_of served ?uid) ?eps sonarr_lookup"
    from collect_series_eq [OF Inr [unfolded r]]
    have s: "series = [length (series_objs st) ..< length (series_objs st) + length ?ss]"
      and st2: "st2 = st\<lparr>movie_objs := movie_objs st @ ?ms, series_objs := series_objs st @ ?ss\<rparr>"
      by simp_all
    let ?ud = "\<lparr>UserWatchData.user_id = ?uid, username = user_Name u,
                watched_movies = ?movies, watched_series = series\<rparr>"
    from Cons.prems(1) cm Inr r
    have rest: "collect_users us served radarr_lookup sonarr_lookup (uds @ [?ud], st2) = Inr (uds', st')"
      by (simp add: Let_def)
    have "\<forall>info \<in> set ?ss. watched_nonzero served ?uid info"
      using series_infos_nonzero by blast
    with Cons.prems(2) have "collected_ok served
        (st\<lparr>movie_objs := movie_objs st @ ?ms, series_objs := series_objs st @ ?ss\<rparr>)
        (uds @ [\<lparr>UserWatchData.user_id = ?uid, username = user_Name u,
              watched_movies = [length (movie_objs st) ..< length (movie_objs st) + length ?ms],
              watched_series = [length (series_objs st) ..< length (series_objs st) + length ?ss]\<rparr>])"
      by (rule collected_ok_snoc)
    then have "collected_ok served st2 (uds @ [?ud])" by (simp add: s st2)
    with rest show ?thesis by (rule Cons.IH)
  qed
qed

lemma collected_ok_empty: "collected_ok served empty_store []"
  by (simp add: collected_ok_def valid_refs_def)

lemma watched_nonzero_fields:
  assumes "obj\<lparr>SeriesInfo.watched_by_users := []\<rparr> = obj'\<lparr>SeriesInfo.watched_by_users := []\<rparr>"
  shows "watched_nonzero served uid obj = watched_nonzero served uid obj'"
proof -
  from assms have "SeriesInfo.jellyfin_id (obj\<lparr>SeriesInfo.watched_by_users := []\<rparr>)
      = SeriesInfo.jellyfin_id (obj'\<lparr>SeriesInfo.watched_by_users := []\<rparr>)"
    and "watched_episodes (obj\<lparr>SeriesInfo.watched_by_users := []\<rparr>)
      = watched_episodes (obj'\<lparr>SeriesInfo.watched_by_users := []\<rparr>)"
    by simp_all
  then show ?thesis by (auto simp: watched_nonzero_def split: sum.splits prod.splits)
qed

lemma series_key_fields:
  assumes "obj\<lparr>SeriesInfo.watched_by_users := []\<rparr> = obj'\<lparr>SeriesInfo.watched_by_users := []\<rparr>"
  shows "series_key obj = series_key obj'"
proof -
  from assms have "SeriesInfo.title (obj\<lparr>SeriesInfo.watched_by_users := []\<rparr>)
      = SeriesInfo.title (obj'\<lparr>SeriesInfo.watched_by_users := []\<rparr>)"
    and "SeriesInfo.year (obj\<lparr>SeriesInfo.watched_by_users := []\<rparr>)
      = SeriesInfo.year (obj'\<lparr>SeriesInfo.watched_by_users := []\<rparr>)"
    by simp_all
  then show ?thesis by (simp add: series_key_def)
qed

lemma names_for_member:
  "n \<in> set (names_for key_of es k) \<Longrightarrow> \<exists>b. (n, b) \<in> set es \<and> key_of b = k"
  by (auto simp: names_for_def)

lemma series_watcher_origin:
  assumes n: "n \<in> set (names_for (series_key_at st) es k)"
    and sub: "set es \<subseteq> set (series_entries uds)"
  shows "\<exists>ud \<in> set uds. username ud = n \<and>
     (\<exists>b \<in> set (watched_series ud). series_key_at st b = k)"
proof -
  from names_for_member [OF n] obtain b where b: "(n, b) \<in> set es" and k: "series_key_at st b = k"
    by blast
  from b sub have "(n, b) \<in> set (series_entries uds)" by blast
  then obtain ud where "ud \<in> set uds" "n = username ud" "b \<in> set (watched_series ud)"
    by (auto simp: series_entries_member)
  with k show ?thesis by blast
qed

lemma full_bucket_watchers:
  assumes v: "valid_refs st uds"
    and a: "a \<in> set (filed (series_data st uds) P (series_watchers_full st uds))"
    and n: "n \<in> set (SeriesInfo.watched_by_users (series_objs (final_store st uds) ! a))"
  shows "(\<exists>ud \<in> set uds. a \<in> set (watched_series ud)) \<and>
     (\<exists>ud \<in> set uds. username ud = n \<and>
       (\<exists>b \<in> set (watched_series ud). series_key_at st b = series_key_at st a))"
proof -
  let ?es = "series_entries uds" and ?ep = "partially_entries st uds"
    and ?ef = "fully_entries st uds" and ?key = "series_key_at st"
  from full_bucket_entry [OF v a] obtain k where k: "k \<in> key_set ?key ?ef"
    and l: "a = last_for ?key ?es k"
    and w: "SeriesInfo.watched_by_users (series_objs (final_store st uds) ! a) =
       (if k \<in> key_set ?key ?ep then names_for ?key ?ep k else names_for ?key ?ef k)"
    by auto
  have "key_set ?key ?ef \<subseteq> key_set ?key ?es"
    by (rule key_set_mono) (rule fully_entries_subset)
  with k have ke: "k \<in> key_set ?key ?es" by blast
  from last_for_in [OF ke] l have ka: "?key a = k" and "\<exists>m. (m, a) \<in> set ?es" by simp_all
  then have own: "\<exists>ud \<in> set uds. a \<in> set (watched_series ud)"
    by (auto simp: series_entries_member)
  have "\<exists>ud \<in> set uds. username ud = n \<and> (\<exists>b \<in> set (watched_series ud). ?key b = k)"
  proof (cases "k \<in> key_set ?key ?ep")
    case True
    with w n have "n \<in> set (names_for ?key ?ep k)" by simp
    then show ?thesis using partially_entries_subset by (rule series_watcher_origin)
  next
    case False
    with w n have "n \<in> set (names_for ?key ?ef k)" by simp
    then show ?thesis using fully_entries_subset by (rule series_watcher_origin)
  qed
  with own ka show ?thesis by simp
qed

lemma partial_bucket_watchers:
  assumes v: "valid_refs st uds"
    and a: "a \<in> set (filed (series_data st uds) P (series_watchers_partial st uds))"
    and n: "n \<in> set (SeriesInfo.watched_by_users (series_objs (final_store st uds) ! a))"
  shows "(\<exists>ud \<in> set uds. a \<in> set (watched_series ud)) \<and>
     (\<exists>ud \<in> set uds. username ud = n \<and>
       (\<exists>b \<in> set (watched_series ud). series_key_at st b = series_key_at st a))"
proof -
  let ?es = "series_entries uds" and ?ep = "partially_entries st uds" and ?key = "series_key_at st"
  from partial_bucket_entry [OF v a] obtain k where k: "k \<in> key_set ?key ?ep"
    and l: "a = last_for ?key ?es k"
    and w: "SeriesInfo.watched_by_users (series_objs (final_store st uds) ! a) = names_for ?key ?ep k"
    by auto
  have "key_set ?key ?ep \<subseteq> key_set ?key ?es"
    by (rule key_set_mono) (rule partially_entries_subset)
  with k have ke: "k \<in> key_set ?key ?es" by blast
  from last_for_in [OF ke] l have ka: "?key a = k" and "\<exists>m. (m, a) \<in> set ?es" by simp_all
  then have own: "\<exists>ud \<in> set uds. a \<in> set (watched_series ud)"
    by (auto simp: series_entries_member)
  from w n have "n \<in> set (names_for ?key ?ep k)" by simp
  then have "\<exists>ud \<in> set uds. username ud = n \<and> (\<exists>b \<in> set (watched_series ud). ?key b = k)"
    using partially_entries_subset by (rule series_watcher_origin)
  with own ka show ?thesis by simp
qed

lemma generate_report_series:
  assumes g: "generate_report self uds st0 = Inr (report, st)" and v: "valid_refs st0 uds"
  shows "users report = uds"
    and "(series_objs st ! a)\<lparr>SeriesInfo.watched_by_users := []\<rparr>
           = (series_objs st0 ! a)\<lparr>SeriesInfo.watched_by_users := []\<rparr>"
    and "a \<in> set (series_fully_watched_by_all report) \<union> set (series_fully_watched_by_some report) \<union>
            set (series_partially_watched_by_all report) \<union>
            set (series_partially_watched_by_some report) \<Longrightarrow>
         n \<in> set (SeriesInfo.watched_by_users (series_objs st ! a)) \<Longrightarrow>
         (\<exists>ud \<in> set uds. a \<in> set (watched_series ud)) \<and>
         (\<exists>ud \<in> set uds. username ud = n \<and>
            (\<exists>b \<in> set (watched_series ud). series_key_at st0 b = series_key_at st0 a))"
proof -
  show "users report = uds"
  proof (cases "uds = []")
    case True
    with g show ?thesis by (auto simp: generate_report_empty)
  next
    case False
    with g show ?thesis by (auto simp: generate_report_result)
  qed
  show "(series_objs st ! a)\<lparr>SeriesInfo.watched_by_users := []\<rparr>
           = (series_objs st0 ! a)\<lparr>SeriesInfo.watched_by_users := []\<rparr>"
  proof (cases "uds = []")
    case True
    with g show ?thesis by (auto simp: generate_report_empty)
  next
    case False
    with g have "st = final_store st0 uds" by (auto simp: generate_report_result)
    then show ?thesis by (simp add: final_store_series_fields)
  qed
  assume a: "a \<in> set (series_fully_watched_by_all report) \<union> set (series_fully_watched_by_some report) \<union>
            set (series_partially_watched_by_all report) \<union>
            set (series_partially_watched_by_some report)"
    and n: "n \<in> set (SeriesInfo.watched_by_users (series_objs st ! a))"
  show "(\<exists>ud \<in> set uds. a \<in> set (watched_series ud)) \<and>
         (\<exists>ud \<in> set uds. username ud = n \<and>
            (\<exists>b \<in> set (watched_series ud). series_key_at st0 b = series_key_at st0 a))"
  proof (cases "uds = []")
    case True
    with g a show ?thesis by (auto simp: generate_report_empty Report_default_def)
  next
    case False
    with g have st: "st = final_store st0 uds" by (auto simp: generate_report_result)
    from g False a have "a \<in> set (filed (series_data st0 uds) (\<lambda>names. length names = length uds) (series_watchers_full st0 uds)) \<or>
        a \<in> set (filed (series_data st0 uds) (\<lambda>names. length names \<noteq> length uds) (series_watchers_full st0 uds)) \<or>
        a \<in> set (filed (series_data st0 uds) (\<lambda>names. length names = length uds) (series_watchers_partial st0 uds)) \<or>
        a \<in> set (filed (series_data st0 uds) (\<lambda>names. length names \<noteq> length uds) (series_watchers_partial st0 uds))"
      by (auto simp: generate_report_result)
    then show ?thesis
      using full_bucket_watchers [OF v _ n [unfolded st]] partial_bucket_watchers [OF v _ n [unfolded st]]
      by blast
  qed
qed

subsection \<open>Series without a watched episode\<close>

lemma series_bucket_owned:
  assumes g: "generate_report self uds st0 = Inr (report, st)"
    and a: "a \<in> set (series_fully_watched_by_all report) \<union> set (series_fully_watched_by_some report) \<union>
            set (series_partially_watched_by_all report) \<union>
            set (series_partially_watched_by_some report)"
  shows "\<exists>ud \<in> set uds. a \<in> set (watched_series ud)"
proof (cases "uds = []")
  case True
  with g a show ?thesis by (auto simp: generate_report_empty Report_default_def)
next
  case False
  with g a have "a \<in> set (filed (series_data st0 uds) (\<lambda>names. length names = length uds) (series_watchers_full st0 uds)) \<union>
       set (filed (series_data st0 uds) (\<lambda>names. length names \<noteq> length uds) (series_watchers_full st0 uds)) \<union>
       set (filed (series_data st0 uds) (\<lambda>names. length names = length uds) (series_watchers_partial st0 uds)) \<union>
       set (filed (series_data st0 uds) (\<lambda>names. length names \<noteq> length uds) (series_watchers_partial st0 uds))"
    by (auto simp: generate_report_result)
  from series_representative_user [OF this] obtain us1 u us2
    where "uds = us1 @ u # us2" and "a \<in> set (watched_series u)" by blast
  then show ?thesis by auto
qed

lemma collect_data_parts:
  assumes "collect_data self served = Inr (report, st)"
  shows "(report = Report_default \<and> st = empty_store) \<or>
     (\<exists>uds st0. collected_ok served st0 uds \<and> generate_report self uds st0 = Inr (report, st))"
proof (cases "fst (authenticate (jellyfin self) (auth_outcome served))")
  case (Inl e)
  with assms show ?thesis by (simp add: collect_data_def)
next
  case (Inr ok)
  show ?thesis
  proof (cases ok)
    case False
    with Inr assms show ?thesis by (simp add: collect_data_def)
  next
    case True
    let ?rl = "radarr_tmdb_lookup (radarr_movies served)"
    let ?sl = "sonarr_tvdb_lookup (sonarr_series_list served)"
    show ?thesis
    proof (cases "collect_users (jellyfin_users served) served ?rl ?sl ([], empty_store)")
      case (Inl e)
      with Inr True assms show ?thesis by (simp add: collect_data_def Let_def)
    next
      case r: (Inr r)
      obtain uds st0 where p: "r = (uds, st0)" by (cases r)
      from r p have c: "collect_users (jellyfin_users served) served ?rl ?sl ([], empty_store) = Inr (uds, st0)"
        by simp
      from collect_users_ok [OF c collected_ok_empty] have ok: "collected_ok served st0 uds" .
      from Inr True assms c have "generate_report self uds st0 = Inr (report, st)"
        by (simp add: collect_data_def Let_def)
      with ok show ?thesis by blast
    qed
  qed
qed

text \<open>
  C4. \<open>_parse_series\<close> returns \<open>None\<close> exactly for a series whose watched-episode
  count is 0, and so, in the report \<open>collect_data\<close> returns, every series entry of a
  user's record stems from a series whose watched-episode count for that user is not 0:
  a series with count 0 for a user is not in that user's record. Every object in one of
  the four series buckets is an entry of some user's record, and every name in its
  watcher list is the name of a user whose own record holds an entry with the same
  title/year key (hence with a count that is not 0). So a user for whom the count of a
  series is 0 contributes neither an object nor a watcher name to a bucket through that
  series, whatever other users have watched.
\<close>

theorem zero_watched_series_excluded:
  assumes "collect_data self served = Inr (report, st)"
  shows "(\<forall>ud \<in> set (users report). \<forall>a \<in> set (watched_series ud).
            watched_nonzero served (UserWatchData.user_id ud) (series_objs st ! a)) \<and>
         (\<forall>a \<in> set (series_fully_watched_by_all report) \<union> set (series_fully_watched_by_some report) \<union>
                 set (series_partially_watched_by_all report) \<union>
                 set (series_partially_watched_by_some report).
            (\<exists>ud \<in> set (users report). a \<in> set (watched_series ud)) \<and>
            (\<forall>n \<in> set (SeriesInfo.watched_by_users (series_objs st ! a)).
               \<exists>ud \<in> set (users report). username ud = n \<and>
                 (\<exists>b \<in> set (watched_series ud).
                    series_key (series_objs st ! b) = series_key (series_objs st ! a)))) \<and>
         (parse_series series episodes sonarr_lookup = Inr None \<longleftrightarrow>
            (\<exists>fully total_count. is_series_fully_watched episodes = Inr (fully, 0, total_count)))"
proof -
  from collect_data_parts [OF assms] show ?thesis
  proof
    assume "report = Report_default \<and> st = empty_store"
    then show ?thesis by (simp add: Report_default_def parse_series_None_iff)
  next
    assume "\<exists>uds st0. collected_ok served st0 uds \<and> generate_report self uds st0 = Inr (report, st)"
    then obtain uds st0 where ok: "collected_ok served st0 uds"
      and g: "generate_report self uds st0 = Inr (report, st)" by blast
    from ok have v: "valid_refs st0 uds" by (simp add: collected_ok_def)
    note u = generate_report_series(1) [OF g v]
    note f = generate_report_series(2) [OF g v]
    have 1: "\<forall>ud \<in> set (users report). \<forall>a \<in> set (watched_series ud).
            watched_nonzero served (UserWatchData.user_id ud) (series_objs st ! a)"
    proof (intro ballI)
      fix ud a assume "ud \<in> set (users report)" and "a \<in> set (watched_series ud)"
      with ok u have "watched_nonzero served (UserWatchData.user_id ud) (series_objs st0 ! a)"
        by (simp add: collected_ok_def list_all_iff)
      then show "watched_nonzero served (UserWatchData.user_id ud) (series_objs st ! a)"
        using watched_nonzero_fields [OF f [of a]] by simp
    qed
    have k: "\<And>a b. series_key_at st0 b = series_key_at st0 a \<Longrightarrow>
        series_key (series_objs st ! b) = series_key (series_objs st ! a)"
    proof -
      fix a b assume "series_key_at st0 b = series_key_at st0 a"
      then show "series_key (series_objs st ! b) = series_key (series_objs st ! a)"
        using series_key_fields [OF f [of a]] series_key_fields [OF f [of b]]
        by (simp add: series_key_at_def)
    qed
    have 2: "\<forall>a \<in> set (series_fully_watched_by_all report) \<union> set (series_fully_watched_by_some report) \<union>
                 set (series_partially_watched_by_all report) \<union>
                 set (series_partially_watched_by_some report).
            (\<exists>ud \<in> set (users report). a \<in> set (watched_series ud)) \<and>
            (\<forall>n \<in> set (SeriesInfo.watched_by_users (series_objs st ! a)).
               \<exists>ud \<in> set (users report). username ud = n \<and>
                 (\<exists>b \<in> set (watched_series ud).
                    series_key (series_objs st ! b) = series_key (series_objs st ! a)))"
    proof (intro ballI conjI)
      fix a assume a: "a \<in> set (series_fully_watched_by_all report) \<union> set (series_fully_watched_by_some report) \<union>
                 set (series_partially_watched_by_all report) \<union>
                 set (series_partially_watched_by_some report)"
      from series_bucket_owned [OF g a] u
      show "\<exists>ud \<in> set (users report). a \<in> set (watched_series ud)" by simp
      fix n assume n: "n \<in> set (SeriesInfo.watched_by_users (series_objs st ! a))"
      from generate_report_series(3) [OF g v a n] obtain ud b where "ud \<in> set uds"
        and "username ud = n" and "b \<in> set (watched_series ud)"
        and "series_key_at st0 b = series_key_at st0 a" by blast
      with u k show "\<exists>ud \<in> set (users report). username ud = n \<and>
                 (\<exists>b \<in> set (watched_series ud).
                    series_key (series_objs st ! b) = series_key (series_objs st ! a))"
        by blast
    qed
    from 1 2 show ?thesis by (simp add: parse_series_None_iff)
  qed
qed

theorem zero_watched_series_excluded_witness:
  "\<exists>report st. collect_data example_service example_responses = Inr (report, st) \<and>
     map username (users report) = [''alice'', ''bob''] \<and>
     map watched_series (users report) = [[], [0]] \<and>
     watched_nonzero example_responses ''u2'' (series_objs st ! 0) \<and>
     series_partially_watched_by_some report = [0] \<and>
     SeriesInfo.watched_by_users (series_objs st ! 0) = [''bob'']"
proof -
  have r: "map_sum id (\<lambda>(report, st).
       (map UserWatchData.user_id (users report), map username (users report),
        map watched_series (users report),
        series_partially_watched_by_some report,
        SeriesInfo.watched_by_users (series_objs st ! 0)))
     (collect_data example_service example_responses)
   = Inr ([''u1'', ''u2''], [''alice'', ''bob''], [[], [0]], [0], [''bob''])"
    by (simp add: example_defs eval_defs example_responses_def dark_item_def collect_data_def
        authenticate_def radarr_tmdb_lookup_def sonarr_tvdb_lookup_def parse_series_def
        is_series_fully_watched_def played_def new_series_def new_movie_def empty_store_def
        no_provider_ids_def truthy_str_def)
  then obtain report st where c: "collect_data example_service example_responses = Inr (report, st)"
    by (cases "collect_data example_service example_responses") auto
  from r c have i: "map UserWatchData.user_id (users report) = [''u1'', ''u2'']"
    and n: "map username (users report) = [''alice'', ''bob'']"
    and s: "map watched_series (users report) = [[], [0]]"
    and p: "series_partially_watched_by_some report = [0]"
    and w: "SeriesInfo.watched_by_users (series_objs st ! 0) = [''bob'']"
    by simp_all
  from i s obtain ua ub where u: "users report = [ua, ub]" and b: "UserWatchData.user_id ub = ''u2''"
    "watched_series ub = [0]"
    by (auto simp: map_eq_Cons_conv)
  from zero_watched_series_excluded [OF c]
  have "\<forall>ud \<in> set (users report). \<forall>a \<in> set (watched_series ud).
      watched_nonzero example_responses (UserWatchData.user_id ud) (series_objs st ! a)"
    by blast
  with u b have z: "watched_nonzero example_responses ''u2'' (series_objs st ! 0)" by simp
  show ?thesis
    by (rule exI [of _ report], rule exI [of _ st]) (simp only: c n s p w z simp_thms)
qed

end
